theory Spec2Isabelle
  imports Main "HOL-Library.Log_Nat"
begin

section \<open>Floating-point numbers\<close>

text \<open>
  Python's \<open>float\<close> is IEEE 754 binary64.  A finite float is modelled by the rational
  number it denotes, and every arithmetic operation by the exact operation followed by
  \<open>fl\<close>, rounding to the nearest binary64 value, ties to the even significand:
  the quantum of a number in \<open>[2^e, 2^(e+1))\<close> is \<open>2^(e-52)\<close>, and \<open>2^(-1074)\<close> below
  \<open>2^(-1022)\<close>.  The sign of zero is not represented (no operation of the program
  observes it).  \<open>fl\<close> has no upper exponent bound; \<open>round_double\<close> adds the
  overflow to an infinity, for a rounded magnitude of \<open>2^1024\<close> or more.
\<close>

definition pow2 :: "int \<Rightarrow> rat" where
  "pow2 e = (if 0 \<le> e then 2 ^ nat e else 1 / 2 ^ nat (- e))"

definition ilog2 :: "rat \<Rightarrow> int" where
  "ilog2 x =
     (let p = fst (quotient_of x); q = snd (quotient_of x);
          d = bitlen p - bitlen q
      in if pow2 d \<le> x then d else d - 1)"

definition round_half_even :: "rat \<Rightarrow> int" where
  "round_half_even y =
     (let f = \<lfloor>y\<rfloor>; d = y - of_int f
      in if d < 1 / 2 then f else if 1 / 2 < d then f + 1
         else if even f then f else f + 1)"

definition fl :: "rat \<Rightarrow> rat" where
  "fl x =
     (if x = 0 then 0
      else let a = \<bar>x\<bar>; e = max (ilog2 a) (- 1022); u = pow2 (e - 52)
           in sgn x * of_int (round_half_even (a / u)) * u)"

text \<open>\<open>int(x)\<close> for a finite float \<open>x\<close> truncates toward zero.\<close>

definition py_trunc :: "rat \<Rightarrow> int" where
  "py_trunc x = (if 0 \<le> x then \<lfloor>x\<rfloor> else \<lceil>x\<rceil>)"

text \<open>\<open>float(n)\<close> for an integer, and true division \<open>a / b\<close> of two integers.\<close>

definition float_of_int :: "int \<Rightarrow> rat" where
  "float_of_int n = fl (of_int n)"

definition truediv :: "int \<Rightarrow> int \<Rightarrow> rat" where
  "truediv a b = fl (of_int a / of_int b)"

text \<open>
  A float that was read from a token can also be an infinity or a NaN.  Comparisons with a
  NaN are false; \<open>min\<close> and \<open>max\<close> of two arguments are Python's, which keep the first
  argument unless the second is strictly smaller (greater).
\<close>

datatype pyfloat = Finite rat | PosInf | NegInf | NaN

definition round_double :: "rat \<Rightarrow> pyfloat" where
  "round_double q =
     (let r = fl q
      in if r \<noteq> 0 \<and> 1024 \<le> ilog2 \<bar>r\<bar> then (if 0 < r then PosInf else NegInf)
         else Finite r)"

fun flt_less :: "pyfloat \<Rightarrow> pyfloat \<Rightarrow> bool" where
  "flt_less NaN _ = False"
| "flt_less _ NaN = False"
| "flt_less (Finite a) (Finite b) = (a < b)"
| "flt_less (Finite a) PosInf = True"
| "flt_less (Finite a) NegInf = False"
| "flt_less PosInf _ = False"
| "flt_less NegInf (Finite b) = True"
| "flt_less NegInf PosInf = True"
| "flt_less NegInf NegInf = False"

fun flt_le :: "pyfloat \<Rightarrow> pyfloat \<Rightarrow> bool" where
  "flt_le NaN _ = False"
| "flt_le _ NaN = False"
| "flt_le (Finite a) (Finite b) = (a \<le> b)"
| "flt_le (Finite a) PosInf = True"
| "flt_le (Finite a) NegInf = False"
| "flt_le PosInf PosInf = True"
| "flt_le PosInf _ = False"
| "flt_le NegInf _ = True"

definition py_min :: "pyfloat \<Rightarrow> pyfloat \<Rightarrow> pyfloat" where
  "py_min a b = (if flt_less b a then b else a)"

definition py_max :: "pyfloat \<Rightarrow> pyfloat \<Rightarrow> pyfloat" where
  "py_max a b = (if flt_less a b then b else a)"

text \<open>
  The errors of the program: the two exception classes of the parser, one constructor per
  message, with the line number (and the offending value) the message carries, and the
  built-in exceptions that conversions raise.
\<close>

datatype error =
    UnknownCommand nat string
  | InvalidSyntax nat
  | TextRequiresContent nat
  | ShapeRequiresType nat
  | MoveRequires nat
  | InvalidColor nat string
  | FpsOutOfRange nat
  | DurationOutOfRange nat
  | TooManyObjects nat
  | UnknownShapeType nat string
  | TooManyFrames int
  | ValueError
  | OverflowError



text \<open>
  \<open>int(x)\<close> of a float raises \<open>ValueError\<close> on a NaN and \<open>OverflowError\<close> on an
  infinity.  \<open>int(d * n)\<close> for a float \<open>d\<close> and an integer \<open>n\<close> converts \<open>n\<close> to a float
  first (\<open>OverflowError\<close> when it is out of range), multiplies and truncates.
\<close>

fun int_of_float :: "pyfloat \<Rightarrow> error + int" where
  "int_of_float (Finite q) = Inr (py_trunc q)"
| "int_of_float NaN = Inl ValueError"
| "int_of_float _ = Inl OverflowError"

fun flt_mul :: "pyfloat \<Rightarrow> pyfloat \<Rightarrow> pyfloat" where
  "flt_mul NaN _ = NaN"
| "flt_mul _ NaN = NaN"
| "flt_mul (Finite a) (Finite b) = round_double (a * b)"
| "flt_mul (Finite a) PosInf = (if a = 0 then NaN else if 0 < a then PosInf else NegInf)"
| "flt_mul (Finite a) NegInf = (if a = 0 then NaN else if 0 < a then NegInf else PosInf)"
| "flt_mul PosInf (Finite b) = (if b = 0 then NaN else if 0 < b then PosInf else NegInf)"
| "flt_mul NegInf (Finite b) = (if b = 0 then NaN else if 0 < b then NegInf else PosInf)"
| "flt_mul PosInf PosInf = PosInf"
| "flt_mul PosInf NegInf = NegInf"
| "flt_mul NegInf PosInf = NegInf"
| "flt_mul NegInf NegInf = PosInf"

definition int_of_product :: "pyfloat \<Rightarrow> int \<Rightarrow> error + int" where
  "int_of_product d n =
     (case round_double (of_int n) of
        Finite f \<Rightarrow> int_of_float (flt_mul d (Finite f))
      | _ \<Rightarrow> Inl OverflowError)"

section \<open>Constants (constants.py)\<close>

text \<open>
  Modelled from the spec: the module \<open>constants.py\<close> is not among the sources; the values
  are the resource limits and the allowed words that the specification lists
  (canvas 1280 by 720, duration at most 6 s, at most 24 frames per second, at most 300
  frames and 50 objects; six commands, two shape kinds, three easing kinds).
\<close>

definition MAX_WIDTH :: int where "MAX_WIDTH = 1280"
definition MAX_HEIGHT :: int where "MAX_HEIGHT = 720"
definition MAX_DURATION :: pyfloat where "MAX_DURATION = Finite 6"
definition MAX_FPS :: int where "MAX_FPS = 24"
definition MAX_FRAMES :: int where "MAX_FRAMES = 300"
definition MAX_OBJECTS :: nat where "MAX_OBJECTS = 50"

definition ALLOWED_COMMANDS :: "string list" where
  "ALLOWED_COMMANDS = [''BACKGROUND'', ''FPS'', ''DURATION'', ''TEXT'', ''SHAPE'', ''MOVE'']"

definition ALLOWED_SHAPE_TYPES :: "string list" where
  "ALLOWED_SHAPE_TYPES = [''CIRCLE'', ''RECT'']"

definition ALLOWED_EASE_TYPES :: "string list" where
  "ALLOWED_EASE_TYPES = [''linear'', ''ease-in'', ''ease-out'']"

section \<open>The scene model (dsl\_parser.py, the dataclasses)\<close>

text \<open>
  The dataclasses are records with the fields of the source (\<open>text\<close> and \<open>size\<close> carry a
  prime, the plain names being taken).  \<open>objects\<close> is a list of arbitrary values in the
  source; the renderer tells text and shape commands from anything else with
  \<open>isinstance\<close>, hence the third constructor.
\<close>

record TextCommand =
  text' :: string
  x :: int
  y :: int
  size' :: int
  color :: string
  move_to :: "(int \<times> int) option"
  move_duration :: pyfloat
  obj_id :: string

record ShapeCommand =
  shape_type :: string
  obj_id :: string
  x :: int
  y :: int
  color :: string
  radius :: int
  width :: int
  height :: int
  move_to :: "(int \<times> int) option"
  move_duration :: pyfloat
  ease :: string

record MoveCommand =
  obj_id :: string
  to_x :: int
  to_y :: int
  duration :: pyfloat
  ease :: string

datatype scene_object = Text TextCommand | Shape ShapeCommand | OtherObject

record AnimationSpec =
  background :: string
  fps :: int
  duration :: pyfloat
  objects :: "scene_object list"
  moves :: "MoveCommand list"

text \<open>The attributes that the renderer reads from a text or a shape command alike.\<close>

fun object_id :: "scene_object \<Rightarrow> string" where
  "object_id (Text c) = TextCommand.obj_id c"
| "object_id (Shape c) = ShapeCommand.obj_id c"
| "object_id OtherObject = []"

fun object_xy :: "scene_object \<Rightarrow> int \<times> int" where
  "object_xy (Text c) = (TextCommand.x c, TextCommand.y c)"
| "object_xy (Shape c) = (ShapeCommand.x c, ShapeCommand.y c)"
| "object_xy OtherObject = (0, 0)"

fun object_move_to :: "scene_object \<Rightarrow> (int \<times> int) option" where
  "object_move_to (Text c) = TextCommand.move_to c"
| "object_move_to (Shape c) = ShapeCommand.move_to c"
| "object_move_to OtherObject = None"

fun object_move_duration :: "scene_object \<Rightarrow> pyfloat" where
  "object_move_duration (Text c) = TextCommand.move_duration c"
| "object_move_duration (Shape c) = ShapeCommand.move_duration c"
| "object_move_duration OtherObject = Finite 0"

text \<open>\<open>getattr(obj, 'ease', 'linear')\<close>: a text command has no such attribute.\<close>

fun object_ease :: "scene_object \<Rightarrow> string" where
  "object_ease (Shape c) = ShapeCommand.ease c"
| "object_ease _ = ''linear''"

fun is_command :: "scene_object \<Rightarrow> bool" where
  "is_command OtherObject = False"
| "is_command _ = True"

section \<open>Strings and conversions of the Python library\<close>

text \<open>
  Strings are lists of characters, a character being a code point below 256.
  \<open>strip\<close> removes the white space of \<open>str.isspace\<close> from both ends (among the code
  points below 256: the ASCII controls 9 to 13 and 28 to 31, the space, and the code
  points 133 and 160).  Case mapping and the conversions \<open>int\<close> and \<open>float\<close> are
  modelled for ASCII text, where \<open>int\<close> and \<open>float\<close> skip the narrower white space of
  C; outside ASCII they follow Unicode in Python.  The statements about documents
  therefore assume \<open>is_ascii\<close>.
\<close>

definition is_ascii :: "string \<Rightarrow> bool" where
  "is_ascii s = list_all (\<lambda>c. (of_char c :: nat) < 128) s"

definition is_space :: "char \<Rightarrow> bool" where
  "is_space c = (of_char c \<in> {9, 10, 11, 12, 13, 28, 29, 30, 31, 32, 133, 160 :: nat})"

definition is_c_space :: "char \<Rightarrow> bool" where
  "is_c_space c = (of_char c \<in> {9, 10, 11, 12, 13, 32 :: nat})"

definition strip :: "string \<Rightarrow> string" where
  "strip s = rev (dropWhile is_space (rev (dropWhile is_space s)))"

definition c_strip :: "string \<Rightarrow> string" where
  "c_strip s = rev (dropWhile is_c_space (rev (dropWhile is_c_space s)))"

definition upper_char :: "char \<Rightarrow> char" where
  "upper_char c =
     (let n = of_char c :: nat in if 97 \<le> n \<and> n \<le> 122 then char_of (n - 32) else c)"

definition lower_char :: "char \<Rightarrow> char" where
  "lower_char c =
     (let n = of_char c :: nat in if 65 \<le> n \<and> n \<le> 90 then char_of (n + 32) else c)"

definition upper :: "string \<Rightarrow> string" where
  "upper s = map upper_char s"

definition lower :: "string \<Rightarrow> string" where
  "lower s = map lower_char s"

text \<open>\<open>s.split(sep)\<close> for a separator of one character: never an empty list.\<close>

fun split_char :: "char \<Rightarrow> string \<Rightarrow> string list" where
  "split_char sep [] = [[]]"
| "split_char sep (c # cs) =
     (if c = sep then [] # split_char sep cs
      else (case split_char sep cs of f # fs \<Rightarrow> (c # f) # fs | [] \<Rightarrow> [[c]]))"

definition lstrip_char :: "char \<Rightarrow> string \<Rightarrow> string" where
  "lstrip_char ch s = dropWhile (\<lambda>c. c = ch) s"

text \<open>
  \<open>int(s, base)\<close> for base 10 and 16: optional sign, for base 16 an optional prefix
  \<open>0x\<close> (after which one underscore may stand), then digits, single underscores allowed
  between two digits.  \<open>None\<close> stands for \<open>ValueError\<close>, which CPython (3.11 and
  later, with the default limit) also raises for a decimal string of more than 4300
  digits.
\<close>

definition digit_val :: "nat \<Rightarrow> char \<Rightarrow> nat option" where
  "digit_val base c =
     (let n = of_char c :: nat;
          v = (if 48 \<le> n \<and> n \<le> 57 then n - 48
               else if 97 \<le> n \<and> n \<le> 122 then n - 87
               else if 65 \<le> n \<and> n \<le> 90 then n - 55
               else base)
      in if v < base then Some v else None)"

fun digitpart :: "nat \<Rightarrow> nat \<Rightarrow> bool \<Rightarrow> string \<Rightarrow> nat option" where
  "digitpart base acc after_digit [] = (if after_digit then Some acc else None)"
| "digitpart base acc after_digit (c # cs) =
     (if c = CHR ''_'' then (if after_digit then digitpart base acc False cs else None)
      else (case digit_val base c of
              Some d \<Rightarrow> digitpart base (acc * base + d) True cs
            | None \<Rightarrow> None))"

definition unsigned_int :: "nat \<Rightarrow> string \<Rightarrow> nat option" where
  "unsigned_int base s =
     (if base = 16 \<and> (take 2 s = ''0x'' \<or> take 2 s = ''0X'')
      then (let r = drop 2 s in digitpart base 0 False (if take 1 r = ''_'' then drop 1 r else r))
      else digitpart base 0 False s)"

definition too_many_digits :: "nat \<Rightarrow> string \<Rightarrow> bool" where
  "too_many_digits base s = (base = 10 \<and> 4300 < length (filter (\<lambda>c. c \<noteq> CHR ''_'') s))"

definition py_int_base :: "nat \<Rightarrow> string \<Rightarrow> int option" where
  "py_int_base base s =
     (let t = c_strip s;
          body = (if take 1 t = ''-'' \<or> take 1 t = ''+'' then drop 1 t else t)
      in if too_many_digits base body then None
         else if take 1 t = ''-'' then map_option (\<lambda>n. - int n) (unsigned_int base body)
         else map_option int (unsigned_int base body))"

definition py_int :: "string \<Rightarrow> int option" where
  "py_int s = py_int_base 10 s"

text \<open>
  \<open>float(s)\<close>: optional sign, then \<open>inf\<close>, \<open>infinity\<close> or \<open>nan\<close> in any case, or a
  decimal number with optional fraction and exponent.  Underscores are removed first and
  must each stand between two digits.  The decimal value is rounded to the nearest float.
\<close>

definition is_digit :: "char \<Rightarrow> bool" where
  "is_digit c = (let n = of_char c :: nat in 48 \<le> n \<and> n \<le> 57)"

fun remove_underscores :: "bool \<Rightarrow> string \<Rightarrow> string option" where
  "remove_underscores after_digit [] = Some []"
| "remove_underscores after_digit (c # cs) =
     (if c = CHR ''_'' then
        (if after_digit \<and> cs \<noteq> [] \<and> is_digit (hd cs) then remove_underscores False cs
         else None)
      else map_option ((#) c) (remove_underscores (is_digit c) cs))"

definition digits_value :: "string \<Rightarrow> nat" where
  "digits_value ds = foldl (\<lambda>acc c. acc * 10 + (of_char c - 48)) 0 ds"

definition decimal_exponent :: "string \<Rightarrow> int option" where
  "decimal_exponent r =
     (if r = [] then Some 0
      else if hd r = CHR ''e'' \<or> hd r = CHR ''E'' then
        (let t = tl r;
             neg = (take 1 t = ''-'');
             u = (if take 1 t = ''-'' \<or> take 1 t = ''+'' then drop 1 t else t)
         in if u \<noteq> [] \<and> list_all is_digit u
            then Some (if neg then - int (digits_value u) else int (digits_value u))
            else None)
      else None)"

definition decimal_value :: "string \<Rightarrow> rat option" where
  "decimal_value s =
     (let d1 = takeWhile is_digit s; r1 = dropWhile is_digit s;
          has_point = (take 1 r1 = ''.'');
          d2 = (if has_point then takeWhile is_digit (drop 1 r1) else []);
          r2 = (if has_point then dropWhile is_digit (drop 1 r1) else r1)
      in if d1 = [] \<and> d2 = [] then None
         else (case decimal_exponent r2 of
                 None \<Rightarrow> None
               | Some e \<Rightarrow>
                   Some (of_nat (digits_value (d1 @ d2)) *
                         (let k = e - int (length d2)
                          in if 0 \<le> k then 10 ^ nat k else 1 / 10 ^ nat (- k)))))"

definition unsigned_float :: "string \<Rightarrow> pyfloat option" where
  "unsigned_float s =
     (if lower s = ''inf'' \<or> lower s = ''infinity'' then Some PosInf
      else if lower s = ''nan'' then Some NaN
      else (case remove_underscores False s of
              None \<Rightarrow> None
            | Some t \<Rightarrow> map_option round_double (decimal_value t)))"

fun flt_neg :: "pyfloat \<Rightarrow> pyfloat" where
  "flt_neg (Finite q) = Finite (- q)"
| "flt_neg PosInf = NegInf"
| "flt_neg NegInf = PosInf"
| "flt_neg NaN = NaN"

definition py_float :: "string \<Rightarrow> pyfloat option" where
  "py_float s =
     (let t = c_strip s
      in if take 1 t = ''-'' then map_option flt_neg (unsigned_float (drop 1 t))
         else if take 1 t = ''+'' then unsigned_float (drop 1 t)
         else unsigned_float t)"

section \<open>Colours (dsl\_parser.py, validate\_color and hex\_to\_rgb)\<close>

definition is_hex_digit :: "char \<Rightarrow> bool" where
  "is_hex_digit c =
     (let n = of_char c :: nat
      in (48 \<le> n \<and> n \<le> 57) \<or> (65 \<le> n \<and> n \<le> 70) \<or> (97 \<le> n \<and> n \<le> 102))"

text \<open>
  Modelled from the spec: the constant \<open>VALID_COLORS_PATTERN\<close> of \<open>constants.py\<close> is not
  among the sources; the specification gives the pattern as \<open>^#[0-9A-Fa-f]{6}$\<close>.
  \<open>match_VALID_COLORS_PATTERN s\<close> is \<open>re.match\<close> of that pattern on \<open>s\<close>: the match
  starts at the first character, and \<open>$\<close> matches at the end of the string and also just
  before a line feed that ends the string.
\<close>

definition match_VALID_COLORS_PATTERN :: "string \<Rightarrow> bool" where
  "match_VALID_COLORS_PATTERN s =
     (take 1 s = ''#'' \<and> length (take 6 (drop 1 s)) = 6
      \<and> list_all is_hex_digit (take 6 (drop 1 s))
      \<and> (drop 7 s = [] \<or> drop 7 s = [CHR 0x0A]))"

definition validate_color :: "string \<Rightarrow> bool" where
  "validate_color col = (if col = [] then False else match_VALID_COLORS_PATTERN col)"

definition hex_to_rgb :: "string \<Rightarrow> error + (int \<times> int \<times> int)" where
  "hex_to_rgb hex_color =
     (let h = lstrip_char CHR ''#'' hex_color
      in case py_int_base 16 (take 2 h) of
           None \<Rightarrow> Inl ValueError
         | Some r \<Rightarrow>
             (case py_int_base 16 (take 2 (drop 2 h)) of
                None \<Rightarrow> Inl ValueError
              | Some g \<Rightarrow>
                  (case py_int_base 16 (take 2 (drop 4 h)) of
                     None \<Rightarrow> Inl ValueError
                   | Some b \<Rightarrow> Inr (r, g, b))))"

section \<open>The movement engine (renderer.py)\<close>

definition ease_linear :: "rat \<Rightarrow> rat" where
  "ease_linear t = t"

definition ease_in :: "rat \<Rightarrow> rat" where
  "ease_in t = fl (t * t)"

definition ease_out :: "rat \<Rightarrow> rat" where
  "ease_out t = fl (1 - fl (fl (1 - t) * fl (1 - t)))"

definition EASE_FUNCTIONS :: "string \<rightharpoonup> (rat \<Rightarrow> rat)" where
  "EASE_FUNCTIONS =
     [''linear'' \<mapsto> ease_linear, ''ease-in'' \<mapsto> ease_in, ''ease-out'' \<mapsto> ease_out]"

text \<open>
  A motion descriptor is the dictionary with the keys \<open>from\<close>, \<open>to\<close>, \<open>start_frame\<close>,
  \<open>end_frame\<close> and \<open>ease\<close>.  A frame is the list of drawing calls that produce it.
\<close>

record motion =
  from_xy :: "int \<times> int"
  to_xy :: "int \<times> int"
  start_frame :: int
  end_frame :: int
  ease_name :: string

datatype draw_op =
    NewImage int int "int \<times> int \<times> int"
  | DrawText "int \<times> int" string "int \<times> int \<times> int" int
  | DrawEllipse "int \<times> int \<times> int \<times> int" "int \<times> int \<times> int"
  | DrawRectangle "int \<times> int \<times> int \<times> int" "int \<times> int \<times> int"
  | DrawWatermark "int \<times> int" string "int \<times> int \<times> int \<times> int" int

record AnimationRenderer =
  spec :: AnimationSpec
  width :: int
  height :: int
  frames :: "draw_op list list"
  total_frames :: int
  bg_color :: "int \<times> int \<times> int"
  object_positions :: "string \<rightharpoonup> int \<times> int"
  object_moves :: "string \<rightharpoonup> motion"

text \<open>
  \<open>_prepare_movements\<close>: the first loop records the position of every text and shape
  command and the descriptor of its inline move; the second loop runs over the standalone
  moves.  \<open>int(duration * fps)\<close> can raise, which ends the loop.
\<close>

fun prepare_objects :: "scene_object list \<Rightarrow> AnimationRenderer \<Rightarrow> error + AnimationRenderer" where
  "prepare_objects [] r = Inr r"
| "prepare_objects (obj # objs) r =
     (if is_command obj then
        (let r1 = r\<lparr>object_positions := (object_positions r)(object_id obj \<mapsto> object_xy obj)\<rparr>
         in case object_move_to obj of
              None \<Rightarrow> prepare_objects objs r1
            | Some target \<Rightarrow>
                if flt_less (Finite 0) (object_move_duration obj) then
                  (case int_of_product (object_move_duration obj) (fps (spec r1)) of
                     Inl e \<Rightarrow> Inl e
                   | Inr ef \<Rightarrow>
                       prepare_objects objs
                         (r1\<lparr>object_moves := (object_moves r1)(object_id obj \<mapsto>
                            \<lparr>from_xy = object_xy obj, to_xy = target, start_frame = 0,
                             end_frame = ef, ease_name = object_ease obj\<rparr>)\<rparr>))
                else prepare_objects objs r1)
      else prepare_objects objs r)"

fun prepare_moves :: "MoveCommand list \<Rightarrow> AnimationRenderer \<Rightarrow> error + AnimationRenderer" where
  "prepare_moves [] r = Inr r"
| "prepare_moves (move # ms) r =
     (case object_positions r (MoveCommand.obj_id move) of
        None \<Rightarrow> prepare_moves ms r
      | Some current_pos \<Rightarrow>
          (case int_of_product (MoveCommand.duration move) (fps (spec r)) of
             Inl e \<Rightarrow> Inl e
           | Inr ef \<Rightarrow>
               prepare_moves ms
                 (r\<lparr>object_moves := (object_moves r)(MoveCommand.obj_id move \<mapsto>
                    \<lparr>from_xy = current_pos, to_xy = (to_x move, to_y move), start_frame = 0,
                     end_frame = ef, ease_name = MoveCommand.ease move\<rparr>)\<rparr>)))"

definition prepare_movements :: "AnimationRenderer \<Rightarrow> error + AnimationRenderer" where
  "prepare_movements r =
     (case prepare_objects (objects (spec r)) r of
        Inl e \<Rightarrow> Inl e
      | Inr r1 \<Rightarrow> prepare_moves (moves (spec r1)) r1)"

text \<open>The constructor \<open>AnimationRenderer(spec, width, height)\<close>.\<close>

definition AnimationRenderer_init :: "AnimationSpec \<Rightarrow> int \<Rightarrow> int \<Rightarrow> error + AnimationRenderer" where
  "AnimationRenderer_init sp w h =
     (case int_of_product (AnimationSpec.duration sp) (fps sp) of
        Inl e \<Rightarrow> Inl e
      | Inr tf \<Rightarrow>
          (case hex_to_rgb (background sp) of
             Inl e \<Rightarrow> Inl e
           | Inr bg \<Rightarrow>
               prepare_movements
                 \<lparr>spec = sp, width = min w MAX_WIDTH, height = min h MAX_HEIGHT, frames = [],
                  total_frames = tf, bg_color = bg, object_positions = Map.empty,
                  object_moves = Map.empty\<rparr>))"

text \<open>
  \<open>_get_position\<close>.  The interpolation runs in floating point: true division of two
  integers, the easing function, the product of an integer and a float, the sum of an
  integer and a float, and \<open>int\<close>, which truncates.  (An integer beyond the range of a
  float would raise \<open>OverflowError\<close> in these conversions; coordinates are far below.)
\<close>

definition interpolate :: "int \<Rightarrow> int \<Rightarrow> rat \<Rightarrow> int" where
  "interpolate a b t = py_trunc (fl (float_of_int a + fl (float_of_int (b - a) * t)))"

definition get_position :: "AnimationRenderer \<Rightarrow> string \<Rightarrow> int \<Rightarrow> int \<times> int" where
  "get_position r oid frame =
     (case object_moves r oid of
        None \<Rightarrow> (case object_positions r oid of None \<Rightarrow> (0, 0) | Some p \<Rightarrow> p)
      | Some move \<Rightarrow>
          if frame < start_frame move then from_xy move
          else if end_frame move \<le> frame then to_xy move
          else
            (let progress = truediv (frame - start_frame move)
                              (max 1 (end_frame move - start_frame move));
                 ease_func = (case EASE_FUNCTIONS (ease_name move) of
                                None \<Rightarrow> ease_linear | Some f \<Rightarrow> f);
                 t = ease_func progress
             in (interpolate (fst (from_xy move)) (fst (to_xy move)) t,
                 interpolate (snd (from_xy move)) (snd (to_xy move)) t)))"

text \<open>
  The position formula in the words of the specification, for comparison:
  \<open>easing\<close> names the three curves, \<open>rounded_interpolate\<close> rounds to the nearest integer
  where the program truncates.
\<close>

definition easing :: "string \<Rightarrow> rat \<Rightarrow> rat" where
  "easing name t =
     (if name = ''ease-in'' then fl (t * t)
      else if name = ''ease-out'' then fl (1 - fl (fl (1 - t) * fl (1 - t)))
      else t)"

definition rounded_interpolate :: "int \<Rightarrow> int \<Rightarrow> rat \<Rightarrow> int" where
  "rounded_interpolate a b t = round (of_int a + of_int (b - a) * t)"

text \<open>
  A scene with one circle \<open>ball\<close> at the origin that moves to \<open>target\<close> in \<open>d\<close> seconds,
  at \<open>n\<close> frames per second: what the document
  \<open>FPS n / SHAPE CIRCLE ID ball AT 0,0 MOVE TO target DUR d EASE e\<close> parses to.
\<close>

definition ball_scene :: "int \<Rightarrow> int \<times> int \<Rightarrow> pyfloat \<Rightarrow> string \<Rightarrow> AnimationSpec" where
  "ball_scene n target d e =
     \<lparr>background = ''#202020'', fps = n, duration = Finite 3,
      objects = [Shape \<lparr>shape_type = ''CIRCLE'', obj_id = ''ball'', x = 0, y = 0,
                        color = ''#FFFFFF'', radius = 20, width = 50, height = 50,
                        move_to = Some target, move_duration = d, ease = e\<rparr>],
      moves = []\<rparr>"

text \<open>
  The renderer that the constructor builds for \<open>ball_scene\<close> on a 640 by 360 canvas when
  the move lasts \<open>ef\<close> frames and the scene \<open>tf\<close> frames.
\<close>

definition ball_renderer ::
  "int \<Rightarrow> int \<times> int \<Rightarrow> pyfloat \<Rightarrow> string \<Rightarrow> int \<Rightarrow> int \<Rightarrow> AnimationRenderer" where
  "ball_renderer n target d e tf ef =
     \<lparr>spec = ball_scene n target d e, width = 640, height = 360, frames = [],
      total_frames = tf, bg_color = (32, 32, 32),
      object_positions = [''ball'' \<mapsto> (0, 0)],
      object_moves = [''ball'' \<mapsto> \<lparr>from_xy = (0, 0), to_xy = target, start_frame = 0,
                                   end_frame = ef, ease_name = e\<rparr>]\<rparr>"

text \<open>Every descriptor starts at frame 0: the invariant of \<open>_prepare_movements\<close>.\<close>

definition starts_at_0 :: "AnimationRenderer \<Rightarrow> bool" where
  "starts_at_0 r = (\<forall>oid m. object_moves r oid = Some m \<longrightarrow> start_frame m = 0)"

section \<open>The tokenizer (dsl\_parser.py, tokenize\_line)\<close>

text \<open>
  Strings are lists of characters.  \<open>tokenize_line\<close> runs over the characters of one
  line with three local variables: the tokens found so far, the token under construction
  and the quote flag.  The four branches of the loop body are kept in the order of the
  source; after the loop a non-empty token under construction is flushed.
\<close>

fun tokenize_loop :: "string \<Rightarrow> string list \<Rightarrow> string \<Rightarrow> bool \<Rightarrow> string list" where
  "tokenize_loop [] tokens current in_quotes =
     (if current \<noteq> [] then tokens @ [current] else tokens)"
| "tokenize_loop (c # cs) tokens current in_quotes =
     (if c = CHR 0x22 \<and> \<not> in_quotes then tokenize_loop cs tokens current True
      else if c = CHR 0x22 \<and> in_quotes then tokenize_loop cs (tokens @ [current]) [] False
      else if c = CHR '' '' \<and> \<not> in_quotes then
        (if current \<noteq> [] then tokenize_loop cs (tokens @ [current]) [] in_quotes
         else tokenize_loop cs tokens current in_quotes)
      else tokenize_loop cs tokens (current @ [c]) in_quotes)"

definition tokenize_line :: "string \<Rightarrow> string list" where
  "tokenize_line line = tokenize_loop line [] [] False"

section \<open>The command parser (dsl\_parser.py)\<close>

definition clamp_coord :: "int \<Rightarrow> int \<Rightarrow> int" where
  "clamp_coord val max_val = max 0 (min val max_val)"

text \<open>
  The coordinate token of \<open>AT\<close>, \<open>MOVE TO\<close> and \<open>TO\<close>: split at the commas; with exactly
  two parts both are converted and clamped, otherwise the token is ignored (\<open>None\<close>).
  The source repeats these lines in each of the three parsers.
\<close>

definition parse_coords :: "string \<Rightarrow> error + (int \<times> int) option" where
  "parse_coords tok =
     (case split_char CHR '','' tok of
        [a, b] \<Rightarrow>
          (case py_int a of
             None \<Rightarrow> Inl ValueError
           | Some cx \<Rightarrow>
               (case py_int b of
                  None \<Rightarrow> Inl ValueError
                | Some cy \<Rightarrow> Inr (Some (clamp_coord cx MAX_WIDTH, clamp_coord cy MAX_HEIGHT))))
      | _ \<Rightarrow> Inr None)"

text \<open>\<open>str(n)\<close> for a line number, as the default identifiers use it.\<close>

fun str_nat :: "nat \<Rightarrow> string" where
  "str_nat n =
     (if n < 10 then [char_of (48 + n)] else str_nat (n div 10) @ [char_of (48 + n mod 10)])"

text \<open>
  The keyword loops \<open>while i < len(tokens)\<close> look only at the tokens from index \<open>i\<close> on;
  they are recursions over that rest of the token list.
\<close>

fun text_loop :: "nat \<Rightarrow> TextCommand \<Rightarrow> string list \<Rightarrow> error + TextCommand" where
  "text_loop line_num cmd [] = Inr cmd"
| "text_loop line_num cmd (tok # rest) =
     (let keyword = upper tok in
      if keyword = ''AT'' \<and> rest \<noteq> [] then
        (case parse_coords (hd rest) of
           Inl e \<Rightarrow> Inl e
         | Inr None \<Rightarrow> text_loop line_num cmd (tl rest)
         | Inr (Some (cx, cy)) \<Rightarrow>
             text_loop line_num (cmd\<lparr>TextCommand.x := cx, TextCommand.y := cy\<rparr>) (tl rest))
      else if keyword = ''SIZE'' \<and> rest \<noteq> [] then
        (case py_int (hd rest) of
           None \<Rightarrow> Inl ValueError
         | Some n \<Rightarrow> text_loop line_num (cmd\<lparr>size' := min (max n 8) 200\<rparr>) (tl rest))
      else if keyword = ''COLOR'' \<and> rest \<noteq> [] then
        (if \<not> validate_color (hd rest) then Inl (InvalidColor line_num (hd rest))
         else text_loop line_num (cmd\<lparr>TextCommand.color := hd rest\<rparr>) (tl rest))
      else if keyword = ''ID'' \<and> rest \<noteq> [] then
        text_loop line_num (cmd\<lparr>TextCommand.obj_id := hd rest\<rparr>) (tl rest)
      else if keyword = ''MOVE'' \<and> 2 \<le> length rest \<and> upper (hd rest) = ''TO'' then
        (case parse_coords (hd (tl rest)) of
           Inl e \<Rightarrow> Inl e
         | Inr None \<Rightarrow> text_loop line_num cmd (drop 2 rest)
         | Inr (Some target) \<Rightarrow>
             text_loop line_num (cmd\<lparr>TextCommand.move_to := Some target\<rparr>) (drop 2 rest))
      else if keyword = ''DUR'' \<and> rest \<noteq> [] then
        (case py_float (hd rest) of
           None \<Rightarrow> Inl ValueError
         | Some dur_val \<Rightarrow>
             text_loop line_num
               (cmd\<lparr>TextCommand.move_duration := py_max (Finite 0) (py_min dur_val MAX_DURATION)\<rparr>)
               (tl rest))
      else text_loop line_num cmd rest)"

definition parse_text_command :: "string list \<Rightarrow> nat \<Rightarrow> error + TextCommand" where
  "parse_text_command tokens line_num =
     (if tokens = [] then Inl (TextRequiresContent line_num)
      else text_loop line_num
             \<lparr>text' = hd tokens, x = 100, y = 100, size' = 32, color = ''#FFFFFF'',
              move_to = None, move_duration = Finite 0,
              obj_id = ''text_'' @ str_nat line_num\<rparr>
             (tl tokens))"

fun shape_loop :: "nat \<Rightarrow> ShapeCommand \<Rightarrow> string list \<Rightarrow> error + ShapeCommand" where
  "shape_loop line_num cmd [] = Inr cmd"
| "shape_loop line_num cmd (tok # rest) =
     (let keyword = upper tok in
      if keyword = ''ID'' \<and> rest \<noteq> [] then
        shape_loop line_num (cmd\<lparr>ShapeCommand.obj_id := hd rest\<rparr>) (tl rest)
      else if keyword = ''AT'' \<and> rest \<noteq> [] then
        (case parse_coords (hd rest) of
           Inl e \<Rightarrow> Inl e
         | Inr None \<Rightarrow> shape_loop line_num cmd (tl rest)
         | Inr (Some (cx, cy)) \<Rightarrow>
             shape_loop line_num (cmd\<lparr>ShapeCommand.x := cx, ShapeCommand.y := cy\<rparr>) (tl rest))
      else if keyword = ''RADIUS'' \<and> rest \<noteq> [] then
        (case py_int (hd rest) of
           None \<Rightarrow> Inl ValueError
         | Some n \<Rightarrow> shape_loop line_num (cmd\<lparr>radius := min (max n 1) 500\<rparr>) (tl rest))
      else if keyword = ''WIDTH'' \<and> rest \<noteq> [] then
        (case py_int (hd rest) of
           None \<Rightarrow> Inl ValueError
         | Some n \<Rightarrow>
             shape_loop line_num (cmd\<lparr>ShapeCommand.width := min (max n 1) MAX_WIDTH\<rparr>) (tl rest))
      else if keyword = ''HEIGHT'' \<and> rest \<noteq> [] then
        (case py_int (hd rest) of
           None \<Rightarrow> Inl ValueError
         | Some n \<Rightarrow>
             shape_loop line_num (cmd\<lparr>ShapeCommand.height := min (max n 1) MAX_HEIGHT\<rparr>) (tl rest))
      else if keyword = ''COLOR'' \<and> rest \<noteq> [] then
        (if \<not> validate_color (hd rest) then Inl (InvalidColor line_num (hd rest))
         else shape_loop line_num (cmd\<lparr>ShapeCommand.color := hd rest\<rparr>) (tl rest))
      else if keyword = ''MOVE'' \<and> 2 \<le> length rest \<and> upper (hd rest) = ''TO'' then
        (case parse_coords (hd (tl rest)) of
           Inl e \<Rightarrow> Inl e
         | Inr None \<Rightarrow> shape_loop line_num cmd (drop 2 rest)
         | Inr (Some target) \<Rightarrow>
             shape_loop line_num (cmd\<lparr>ShapeCommand.move_to := Some target\<rparr>) (drop 2 rest))
      else if keyword = ''DUR'' \<and> rest \<noteq> [] then
        (case py_float (hd rest) of
           None \<Rightarrow> Inl ValueError
         | Some dur_val \<Rightarrow>
             shape_loop line_num
               (cmd\<lparr>ShapeCommand.move_duration := py_max (Finite 0) (py_min dur_val MAX_DURATION)\<rparr>)
               (tl rest))
      else if keyword = ''EASE'' \<and> rest \<noteq> [] then
        (if lower (hd rest) \<in> set ALLOWED_EASE_TYPES
         then shape_loop line_num (cmd\<lparr>ShapeCommand.ease := lower (hd rest)\<rparr>) (tl rest)
         else shape_loop line_num cmd (tl rest))
      else shape_loop line_num cmd rest)"

definition parse_shape_command :: "string list \<Rightarrow> nat \<Rightarrow> error + ShapeCommand" where
  "parse_shape_command tokens line_num =
     (if tokens = [] then Inl (ShapeRequiresType line_num)
      else if upper (hd tokens) \<notin> set ALLOWED_SHAPE_TYPES
      then Inl (UnknownShapeType line_num (upper (hd tokens)))
      else shape_loop line_num
             \<lparr>shape_type = upper (hd tokens), obj_id = ''shape_'' @ str_nat line_num,
              x = 50, y = 50, color = ''#FFFFFF'', radius = 20, width = 50, height = 50,
              move_to = None, move_duration = Finite 0, ease = ''linear''\<rparr>
             (tl tokens))"

fun move_loop :: "MoveCommand \<Rightarrow> string list \<Rightarrow> error + MoveCommand" where
  "move_loop cmd [] = Inr cmd"
| "move_loop cmd (tok # rest) =
     (let keyword = upper tok in
      if keyword = ''TO'' \<and> rest \<noteq> [] then
        (case parse_coords (hd rest) of
           Inl e \<Rightarrow> Inl e
         | Inr None \<Rightarrow> move_loop cmd (tl rest)
         | Inr (Some (cx, cy)) \<Rightarrow> move_loop (cmd\<lparr>to_x := cx, to_y := cy\<rparr>) (tl rest))
      else if keyword = ''DUR'' \<and> rest \<noteq> [] then
        (case py_float (hd rest) of
           None \<Rightarrow> Inl ValueError
         | Some dur_val \<Rightarrow>
             move_loop
               (cmd\<lparr>MoveCommand.duration :=
                      py_max (Finite (fl (1 / 10))) (py_min dur_val MAX_DURATION)\<rparr>)
               (tl rest))
      else if keyword = ''EASE'' \<and> rest \<noteq> [] then
        move_loop
          (cmd\<lparr>MoveCommand.ease :=
                 (if lower (hd rest) \<notin> set ALLOWED_EASE_TYPES then ''linear''
                  else lower (hd rest))\<rparr>)
          (tl rest)
      else move_loop cmd rest)"

definition parse_move_command :: "string list \<Rightarrow> nat \<Rightarrow> error + MoveCommand" where
  "parse_move_command tokens line_num =
     (if length tokens < 4 then Inl (MoveRequires line_num)
      else move_loop
             \<lparr>obj_id = hd tokens, to_x = 0, to_y = 0, duration = Finite 1, ease = ''linear''\<rparr>
             (tl tokens))"

text \<open>
  \<open>parse_dsl\<close>.  The state of the loop over the lines is the specification under
  construction and the object counter.  \<open>run_command\<close> is the body of the \<open>try\<close> block;
  \<open>parse_line\<close> adds the tests before it and the \<open>except\<close> clause, which turns a
  \<open>ValueError\<close> into the parse error of the line.  The frame limit is tested after the loop,
  outside the \<open>try\<close> block.
\<close>

definition run_command ::
  "nat \<Rightarrow> string \<Rightarrow> string list \<Rightarrow> AnimationSpec \<times> nat \<Rightarrow> error + AnimationSpec \<times> nat" where
  "run_command line_num command tokens st =
     (let sp = fst st; object_count = snd st in
      if command = ''BACKGROUND'' then
        (let col = (if 1 < length tokens then tokens ! 1 else ''#202020'') in
         if \<not> validate_color col then Inl (InvalidColor line_num col)
         else Inr (sp\<lparr>background := col\<rparr>, object_count))
      else if command = ''FPS'' then
        (case (if 1 < length tokens then py_int (tokens ! 1) else Some 24) of
           None \<Rightarrow> Inl ValueError
         | Some n \<Rightarrow>
             if n < 1 \<or> MAX_FPS < n then Inl (FpsOutOfRange line_num)
             else Inr (sp\<lparr>fps := n\<rparr>, object_count))
      else if command = ''DURATION'' then
        (case (if 1 < length tokens then py_float (tokens ! 1) else Some (Finite 3)) of
           None \<Rightarrow> Inl ValueError
         | Some d \<Rightarrow>
             if flt_le d (Finite 0) \<or> flt_less MAX_DURATION d
             then Inl (DurationOutOfRange line_num)
             else Inr (sp\<lparr>AnimationSpec.duration := d\<rparr>, object_count))
      else if command = ''TEXT'' then
        (if MAX_OBJECTS < object_count + 1 then Inl (TooManyObjects line_num)
         else (case parse_text_command (tl tokens) line_num of
                 Inl e \<Rightarrow> Inl e
               | Inr text_cmd \<Rightarrow>
                   Inr (sp\<lparr>objects := objects sp @ [Text text_cmd]\<rparr>, object_count + 1)))
      else if command = ''SHAPE'' then
        (if MAX_OBJECTS < object_count + 1 then Inl (TooManyObjects line_num)
         else (case parse_shape_command (tl tokens) line_num of
                 Inl e \<Rightarrow> Inl e
               | Inr shape_cmd \<Rightarrow>
                   Inr (sp\<lparr>objects := objects sp @ [Shape shape_cmd]\<rparr>, object_count + 1)))
      else if command = ''MOVE'' then
        (case parse_move_command (tl tokens) line_num of
           Inl e \<Rightarrow> Inl e
         | Inr move_cmd \<Rightarrow> Inr (sp\<lparr>moves := moves sp @ [move_cmd]\<rparr>, object_count))
      else Inr st)"

definition parse_line ::
  "nat \<Rightarrow> string \<Rightarrow> AnimationSpec \<times> nat \<Rightarrow> error + AnimationSpec \<times> nat" where
  "parse_line line_num raw st =
     (let line = strip raw in
      if line = [] \<or> take 1 line = ''#'' then Inr st
      else let tokens = tokenize_line line in
        if tokens = [] then Inr st
        else let command = upper (hd tokens) in
          if command \<notin> set ALLOWED_COMMANDS then Inl (UnknownCommand line_num command)
          else (case run_command line_num command tokens st of
                  Inl ValueError \<Rightarrow> Inl (InvalidSyntax line_num)
                | res \<Rightarrow> res))"

fun parse_lines ::
  "nat \<Rightarrow> string list \<Rightarrow> AnimationSpec \<times> nat \<Rightarrow> error + AnimationSpec \<times> nat" where
  "parse_lines line_num [] st = Inr st"
| "parse_lines line_num (raw # rest) st =
     (case parse_line line_num raw st of
        Inl e \<Rightarrow> Inl e
      | Inr st' \<Rightarrow> parse_lines (Suc line_num) rest st')"

definition default_spec :: AnimationSpec where
  "default_spec =
     \<lparr>background = ''#202020'', fps = 24, duration = Finite 3, objects = [], moves = []\<rparr>"

definition check_frames :: "AnimationSpec \<Rightarrow> error + AnimationSpec" where
  "check_frames sp =
     (case int_of_product (AnimationSpec.duration sp) (fps sp) of
        Inl e \<Rightarrow> Inl e
      | Inr n \<Rightarrow> if MAX_FRAMES < n then Inl (TooManyFrames n) else Inr sp)"

definition parse_dsl :: "string \<Rightarrow> error + AnimationSpec" where
  "parse_dsl dsl_script =
     (case parse_lines 1 (split_char CHR 0x0A (strip dsl_script)) (default_spec, 0) of
        Inl e \<Rightarrow> Inl e
      | Inr st \<Rightarrow> check_frames (fst st))"

text \<open>
  Words of the specification about lines, for the statements below: the tokens of a line
  that is not skipped, its command, whether it declares an object (a \<open>TEXT\<close> or \<open>SHAPE\<close>
  command), and the values that an \<open>FPS\<close> or \<open>DURATION\<close> line sets.
\<close>

definition line_tokens :: "string \<Rightarrow> string list" where
  "line_tokens raw =
     (if strip raw = [] \<or> take 1 (strip raw) = ''#'' then [] else tokenize_line (strip raw))"

definition line_command :: "string \<Rightarrow> string" where
  "line_command raw = (if line_tokens raw = [] then [] else upper (hd (line_tokens raw)))"

definition is_object_line :: "string \<Rightarrow> bool" where
  "is_object_line raw = (line_command raw = ''TEXT'' \<or> line_command raw = ''SHAPE'')"

definition count_object_lines :: "string list \<Rightarrow> nat" where
  "count_object_lines ls = length (filter is_object_line ls)"






definition document_lines :: "string \<Rightarrow> string list" where
  "document_lines dsl_script = split_char CHR 0x0A (strip dsl_script)"

text \<open>A document of \<open>k\<close> lines \<open>TEXT a\<close> followed by the line \<open>SHAPE CIRCLE\<close>.\<close>

definition texts_then_circle :: "nat \<Rightarrow> string" where
  "texts_then_circle k = concat (replicate k (''TEXT a'' @ [CHR 0x0A])) @ ''SHAPE CIRCLE''"

definition text_a :: "nat \<Rightarrow> scene_object" where
  "text_a n =
     Text \<lparr>text' = ''a'', x = 100, y = 100, size' = 32, color = ''#FFFFFF'', move_to = None,
           move_duration = Finite 0, obj_id = ''text_'' @ str_nat n\<rparr>"

text \<open>
  The reading of a line that the specification gives for text without quotes: the line is
  cut at every space (Python's \<open>line.split(' ')\<close>) and the empty pieces are dropped.
  This definition follows the specification's words and is compared with the loop below.
\<close>

fun split_space :: "string \<Rightarrow> string list" where
  "split_space [] = [[]]"
| "split_space (c # cs) =
     (if c = CHR '' '' then [] # split_space cs
      else (case split_space cs of f # fs \<Rightarrow> (c # f) # fs | [] \<Rightarrow> [[c]]))"

section \<open>The frame compositor (renderer.py)\<close>

text \<open>
  A frame is the list of drawing calls made on the image, in order.  The font and the
  rasterizer belong to the environment; of the font only \<open>textbbox\<close>, which the watermark
  position depends on, enters the model, as the parameter \<open>bbox\<close> (font size and text to
  bounding box).  \<open>hex_to_rgb\<close> can raise, which ends the frame.
\<close>

definition draw_text :: "AnimationRenderer \<Rightarrow> TextCommand \<Rightarrow> int \<Rightarrow> error + draw_op list" where
  "draw_text r cmd frame =
     (let pos = get_position r (TextCommand.obj_id cmd) frame
      in case hex_to_rgb (TextCommand.color cmd) of
           Inl e \<Rightarrow> Inl e
         | Inr col \<Rightarrow> Inr [DrawText pos (text' cmd) col (size' cmd)])"

definition draw_shape :: "AnimationRenderer \<Rightarrow> ShapeCommand \<Rightarrow> int \<Rightarrow> error + draw_op list" where
  "draw_shape r cmd frame =
     (let pos = get_position r (ShapeCommand.obj_id cmd) frame
      in case hex_to_rgb (ShapeCommand.color cmd) of
           Inl e \<Rightarrow> Inl e
         | Inr col \<Rightarrow>
             if shape_type cmd = ''CIRCLE'' then
               Inr [DrawEllipse (fst pos - radius cmd, snd pos - radius cmd,
                                 fst pos + radius cmd, snd pos + radius cmd) col]
             else if shape_type cmd = ''RECT'' then
               Inr [DrawRectangle (fst pos, snd pos, fst pos + ShapeCommand.width cmd,
                                   snd pos + ShapeCommand.height cmd) col]
             else Inr [])"

definition luminosity :: "int \<times> int \<times> int \<Rightarrow> rat" where
  "luminosity rgb =
     (case rgb of (r, g, b) \<Rightarrow>
        fl (fl (fl (fl (fl (299 / 1000) * float_of_int r) + fl (fl (587 / 1000) * float_of_int g))
                + fl (fl (114 / 1000) * float_of_int b))
            / 255))"

definition get_contrasting_color :: "int \<times> int \<times> int \<Rightarrow> int \<times> int \<times> int \<times> int" where
  "get_contrasting_color rgb =
     (if 1 / 2 < luminosity rgb then (50, 50, 50, 200) else (255, 255, 255, 200))"

definition draw_watermark ::
  "(int \<Rightarrow> string \<Rightarrow> int \<times> int \<times> int \<times> int) \<Rightarrow> AnimationRenderer \<Rightarrow> draw_op" where
  "draw_watermark bbox r =
     (let watermark_text = ''AnveshAI'';
          font_size = max 24 (py_trunc (truediv (AnimationRenderer.height r) 12));
          box = bbox font_size watermark_text;
          text_width = fst (snd (snd box)) - fst box;
          text_height = snd (snd (snd box)) - fst (snd box);
          padding = 15;
          px = AnimationRenderer.width r - text_width - padding;
          py = AnimationRenderer.height r - text_height - padding
      in DrawWatermark (px, py) watermark_text (get_contrasting_color (bg_color r)) font_size)"

fun draw_objects :: "AnimationRenderer \<Rightarrow> scene_object list \<Rightarrow> int \<Rightarrow> error + draw_op list" where
  "draw_objects r [] frame = Inr []"
| "draw_objects r (obj # objs) frame =
     (case (case obj of Text c \<Rightarrow> draw_text r c frame
                      | Shape c \<Rightarrow> draw_shape r c frame
                      | OtherObject \<Rightarrow> Inr []) of
        Inl e \<Rightarrow> Inl e
      | Inr ops \<Rightarrow>
          (case draw_objects r objs frame of
             Inl e \<Rightarrow> Inl e
           | Inr others \<Rightarrow> Inr (ops @ others)))"

definition render_frame ::
  "(int \<Rightarrow> string \<Rightarrow> int \<times> int \<times> int \<times> int) \<Rightarrow> AnimationRenderer \<Rightarrow> int
   \<Rightarrow> error + draw_op list" where
  "render_frame bbox r frame_num =
     (case draw_objects r (objects (spec r)) frame_num of
        Inl e \<Rightarrow> Inl e
      | Inr ops \<Rightarrow>
          Inr (NewImage (AnimationRenderer.width r) (AnimationRenderer.height r) (bg_color r)
               # ops @ [draw_watermark bbox r]))"

text \<open>\<open>render_all_frames\<close>: the list \<open>frames\<close> is emptied and refilled, one frame per index.\<close>

fun render_frames_loop ::
  "(int \<Rightarrow> string \<Rightarrow> int \<times> int \<times> int \<times> int) \<Rightarrow> AnimationRenderer \<Rightarrow> int list
   \<Rightarrow> error + AnimationRenderer" where
  "render_frames_loop bbox r [] = Inr r"
| "render_frames_loop bbox r (i # rest) =
     (case render_frame bbox r i of
        Inl e \<Rightarrow> Inl e
      | Inr img \<Rightarrow> render_frames_loop bbox (r\<lparr>frames := frames r @ [img]\<rparr>) rest)"

definition render_all_frames ::
  "(int \<Rightarrow> string \<Rightarrow> int \<times> int \<times> int \<times> int) \<Rightarrow> AnimationRenderer
   \<Rightarrow> error + AnimationRenderer" where
  "render_all_frames bbox r =
     render_frames_loop bbox (r\<lparr>frames := []\<rparr>) (map int [0 ..< nat (total_frames r)])"

text \<open>
  The words of the specification about declarations, for the statements below: the
  declared position of an identifier (the \<open>AT\<close> coordinates of the last object that
  carries it), the last standalone move that names it, and the last object that
  carries it together with an inline move.
\<close>

fun declared_position :: "scene_object list \<Rightarrow> string \<Rightarrow> (int \<times> int) option" where
  "declared_position [] oid = None"
| "declared_position (obj # objs) oid =
     (case declared_position objs oid of
        Some p \<Rightarrow> Some p
      | None \<Rightarrow> if is_command obj \<and> object_id obj = oid then Some (object_xy obj) else None)"

fun last_standalone :: "MoveCommand list \<Rightarrow> string \<Rightarrow> MoveCommand option" where
  "last_standalone [] oid = None"
| "last_standalone (mv # ms) oid =
     (case last_standalone ms oid of
        Some m \<Rightarrow> Some m
      | None \<Rightarrow> if MoveCommand.obj_id mv = oid then Some mv else None)"

definition has_inline_move :: "scene_object \<Rightarrow> bool" where
  "has_inline_move obj =
     (is_command obj \<and> object_move_to obj \<noteq> None
      \<and> flt_less (Finite 0) (object_move_duration obj))"

fun last_inline :: "scene_object list \<Rightarrow> string \<Rightarrow> scene_object option" where
  "last_inline [] oid = None"
| "last_inline (obj # objs) oid =
     (case last_inline objs oid of
        Some b \<Rightarrow> Some b
      | None \<Rightarrow> if has_inline_move obj \<and> object_id obj = oid then Some obj else None)"

text \<open>The descriptors that the two kinds of declaration give, when the frame count exists.\<close>

definition standalone_descriptor :: "int \<Rightarrow> int \<times> int \<Rightarrow> MoveCommand \<Rightarrow> motion option" where
  "standalone_descriptor n p mv =
     (case int_of_product (MoveCommand.duration mv) n of
        Inl e \<Rightarrow> None
      | Inr ef \<Rightarrow>
          Some \<lparr>from_xy = p, to_xy = (to_x mv, to_y mv), start_frame = 0, end_frame = ef,
                ease_name = MoveCommand.ease mv\<rparr>)"

definition inline_descriptor :: "int \<Rightarrow> scene_object \<Rightarrow> motion option" where
  "inline_descriptor n obj =
     (case (object_move_to obj, int_of_product (object_move_duration obj) n) of
        (Some target, Inr ef) \<Rightarrow>
          Some \<lparr>from_xy = object_xy obj, to_xy = target, start_frame = 0, end_frame = ef,
                ease_name = object_ease obj\<rparr>
      | _ \<Rightarrow> None)"

definition final_descriptor :: "AnimationSpec \<Rightarrow> string \<Rightarrow> motion option" where
  "final_descriptor sp oid =
     (case (declared_position (objects sp) oid, last_standalone (moves sp) oid) of
        (Some p, Some mv) \<Rightarrow> standalone_descriptor (fps sp) p mv
      | _ \<Rightarrow>
          (case last_inline (objects sp) oid of
             None \<Rightarrow> None
           | Some obj \<Rightarrow> inline_descriptor (fps sp) obj))"

text \<open>A colour in the sense of the specification: \<open>#\<close> and six hexadecimal digits.\<close>

definition is_hex_color :: "string \<Rightarrow> bool" where
  "is_hex_color s = (length s = 7 \<and> take 1 s = ''#'' \<and> list_all is_hex_digit (drop 1 s))"

text \<open>
  Two documents that differ by one line, a standalone move of an undeclared identifier:
  \<open>MOVE ghost TO 1,1 DUR 1 / TEXT hi / MOVE text_2 TO 5,5 DUR 1\<close> and the same without its
  first line.  And a bounding box for the examples.
\<close>

definition ghost_document :: string where
  "ghost_document =
     ''MOVE ghost TO 1,1 DUR 1'' @ CHR 0x0A # ''TEXT hi'' @ CHR 0x0A # ''MOVE text_2 TO 5,5 DUR 1''"

definition ghost_removed :: string where
  "ghost_removed = ''TEXT hi'' @ CHR 0x0A # ''MOVE text_2 TO 5,5 DUR 1''"

definition flat_bbox :: "int \<Rightarrow> string \<Rightarrow> int \<times> int \<times> int \<times> int" where
  "flat_bbox font_size txt = (0, 0, 8 * int (length txt), font_size)"

text \<open>
  Parsing a document and rendering its frame \<open>i\<close> on a canvas, as
  \<open>generate_video_from_dsl\<close> (pipeline.py) does for every frame before encoding.
\<close>

definition frame_of_document ::
  "(int \<Rightarrow> string \<Rightarrow> int \<times> int \<times> int \<times> int) \<Rightarrow> string \<Rightarrow> int \<Rightarrow> int \<Rightarrow> int
   \<Rightarrow> error + draw_op list" where
  "frame_of_document bbox dsl_script w h i =
     (case parse_dsl dsl_script of
        Inl e \<Rightarrow> Inl e
      | Inr sp \<Rightarrow>
          (case AnimationRenderer_init sp (min (max w 320) MAX_WIDTH) (min (max h 180) MAX_HEIGHT) of
             Inl e \<Rightarrow> Inl e
           | Inr r \<Rightarrow> render_frame bbox r i))"


text \<open>
  A scene in which the circle \<open>ball\<close>, declared at the origin with an inline move, is the
  target of two standalone moves, and a third move names an identifier \<open>ghost\<close> that no
  object carries.
\<close>

definition chained_moves :: "MoveCommand list" where
  "chained_moves =
     [\<lparr>obj_id = ''ball'', to_x = 100, to_y = 100, duration = Finite 1, ease = ''linear''\<rparr>,
      \<lparr>obj_id = ''ball'', to_x = 200, to_y = 50, duration = Finite 2, ease = ''ease-in''\<rparr>,
      \<lparr>obj_id = ''ghost'', to_x = 7, to_y = 7, duration = Finite 1, ease = ''linear''\<rparr>]"

definition chained_scene :: AnimationSpec where
  "chained_scene = (ball_scene 24 (50, 60) (Finite 1) ''ease-out'')\<lparr>moves := chained_moves\<rparr>"

section \<open>Properties of rounding\<close>

text \<open>An integer below \<open>2^53\<close> in magnitude is a float: rounding leaves it unchanged.\<close>

lemma round_half_even_of_int: "round_half_even (of_int z) = z"
  by (simp add: round_half_even_def)

lemma pow2_nonneg: "0 \<le> e \<Longrightarrow> pow2 e = 2 ^ nat e"
  by (simp add: pow2_def)

lemma pow2_pos: "0 < pow2 e"
  by (simp add: pow2_def)

lemma ilog2_of_int:
  assumes "0 < k"
  shows "ilog2 (of_int k) = bitlen k - 1"
proof -
  have b1: "bitlen 1 = 1" by (simp add: bitlen_alt_def)
  have bk: "1 \<le> bitlen k" using assms by (simp add: bitlen_alt_def)
  have "(2::int) ^ nat (bitlen k - 1) \<le> k" using bitlen_bounds [OF assms] by simp
  then have "(of_int ((2::int) ^ nat (bitlen k - 1)) :: rat) \<le> of_int k"
    by (simp only: of_int_le_iff)
  then have "pow2 (bitlen k - 1) \<le> of_int k"
    using bk by (simp add: pow2_def)
  then show ?thesis
    by (simp add: ilog2_def quotient_of_int b1 Let_def)
qed

lemma fl_of_nat_int:
  assumes "0 < k" "k < 2 ^ 53"
  shows "fl (of_int k) = of_int k"
proof -
  define d where "d = bitlen k - 1"
  have bk: "0 \<le> d" using assms(1) by (simp add: d_def bitlen_alt_def)
  have "(2::int) ^ nat d \<le> k" using bitlen_bounds [OF assms(1)] by (simp add: d_def)
  with assms(2) have "(2::int) ^ nat d < 2 ^ 53" by linarith
  then have "nat d < 53" by (simp only: power_strict_increasing_iff one_less_numeral_iff semiring_norm)
  then have d52: "d \<le> 52" by linarith
  define m where "m = nat (52 - d)"
  have u: "pow2 (d - 52) = 1 / 2 ^ m"
  proof (cases "d = 52")
    case True then show ?thesis by (simp add: pow2_def m_def)
  next
    case False
    with d52 have "d - 52 < 0" by simp
    then show ?thesis by (simp add: pow2_def m_def)
  qed
  have q: "(of_int k :: rat) / (1 / 2 ^ m) = of_int (k * 2 ^ m)" by simp
  have il: "ilog2 \<bar>of_int k\<bar> = d" using ilog2_of_int [OF assms(1)] assms(1) by (simp add: d_def)
  have mx: "max d (- 1022) = d" using bk by simp
  have nz: "(of_int k :: rat) \<noteq> 0" using assms(1) by simp
  have sg: "sgn (of_int k :: rat) = 1" using assms(1) by simp
  have ab: "\<bar>of_int k :: rat\<bar> = of_int k" using assms(1) by simp
  show ?thesis
    unfolding fl_def using nz
    apply (simp only: if_False Let_def il mx u sg)
    apply (simp only: ab q round_half_even_of_int)
    apply simp
    done
qed

lemma fl_0: "fl 0 = 0" by (simp add: fl_def)

lemma fl_neg: "fl (- q) = - fl q"
  by (simp add: fl_def Let_def)

lemma fl_of_int:
  assumes "\<bar>n\<bar> < 2 ^ 53"
  shows "fl (of_int n) = of_int n"
proof -
  consider "n = 0" | "0 < n" | "n < 0" by linarith
  then show ?thesis
  proof cases
    case 1 then show ?thesis by (simp add: fl_0)
  next
    case 2 then show ?thesis using fl_of_nat_int [of n] assms by simp
  next
    case 3
    then have "fl (of_int (- n)) = of_int (- n)" using fl_of_nat_int [of "- n"] assms by simp
    then show ?thesis using fl_neg [of "of_int n"] by simp
  qed
qed


section \<open>Properties of the tokenizer\<close>

lemma split_space_nonempty: "split_space cs \<noteq> []"
  by (induction cs) (auto split: list.splits)

text \<open>The tokens already emitted are never looked at again.\<close>

lemma tokenize_loop_acc:
  "tokenize_loop cs tokens current q = tokens @ tokenize_loop cs [] current q"
proof (induction cs arbitrary: tokens current q)
  case Nil
  show ?case by simp
next
  case (Cons c cs)
  show ?case
    using Cons.IH [of "tokens @ [current]" "[]"] Cons.IH [of "[current]" "[]"]
      Cons.IH [of tokens]
    by simp
qed

lemma tokenize_loop_unquoted:
  "CHR 0x22 \<notin> set cs \<Longrightarrow>
   tokenize_loop cs [] current False =
     filter (\<lambda>t. t \<noteq> []) ((current @ hd (split_space cs)) # tl (split_space cs))"
proof (induction cs arbitrary: current)
  case Nil
  show ?case by simp
next
  case (Cons c cs)
  then have nq: "CHR 0x22 \<notin> set cs" and c: "c \<noteq> CHR 0x22" by auto
  obtain f fs where s: "split_space cs = f # fs"
    using split_space_nonempty [of cs] by (cases "split_space cs") auto
  show ?case
  proof (cases "c = CHR '' ''")
    case True
    then show ?thesis
      using Cons.IH [OF nq, of "[]"] tokenize_loop_acc [of cs "[current]" "[]" False]
      by (simp add: s)
  next
    case False
    then show ?thesis
      using Cons.IH [OF nq, of "current @ [c]"] c by (simp add: s)
  qed
qed

text \<open>
  In quote mode every character other than the quote itself, a space and a backslash
  included, is appended to the token under construction; the next quote flushes it.
\<close>

lemma tokenize_loop_quoted:
  "CHR 0x22 \<notin> set q \<Longrightarrow>
   tokenize_loop (q @ CHR 0x22 # rest) tokens current True =
     tokenize_loop rest (tokens @ [current @ q]) [] False"
  by (induction q arbitrary: current) auto

lemma tokenize_loop_unterminated:
  "CHR 0x22 \<notin> set q \<Longrightarrow>
   tokenize_loop q tokens current True =
     (if current @ q \<noteq> [] then tokens @ [current @ q] else tokens)"
  by (induction q arbitrary: current) auto

lemma tokenize_loop_append_boundary:
  "CHR 0x22 \<notin> set pre \<Longrightarrow> pre = [] \<or> last pre = CHR '' '' \<Longrightarrow>
   current = [] \<or> pre \<noteq> [] \<Longrightarrow>
   tokenize_loop (pre @ rest) tokens current False =
     tokenize_loop rest (tokenize_loop pre tokens current False) [] False"
proof (induction pre arbitrary: tokens current)
  case Nil
  then show ?case by simp
next
  case (Cons c pre)
  show ?case
  proof (cases "pre = []")
    case True
    with Cons.prems show ?thesis by simp
  next
    case False
    with Cons.prems have "CHR 0x22 \<notin> set pre" "pre = [] \<or> last pre = CHR '' ''"
      "c \<noteq> CHR 0x22"
      by auto
    then show ?thesis using False Cons.IH by simp
  qed
qed

lemma tokenize_line_quoted_span:
  assumes "CHR 0x22 \<notin> set pre" "pre = [] \<or> last pre = CHR '' ''" "CHR 0x22 \<notin> set q"
  shows "tokenize_line (pre @ CHR 0x22 # q @ CHR 0x22 # rest) =
           tokenize_line pre @ [q] @ tokenize_line rest"
proof -
  have "tokenize_line (pre @ CHR 0x22 # q @ CHR 0x22 # rest) =
          tokenize_loop (CHR 0x22 # q @ CHR 0x22 # rest) (tokenize_line pre) [] False"
    unfolding tokenize_line_def
    using tokenize_loop_append_boundary [OF assms(1,2), of "[]"] by simp
  also have "\<dots> = tokenize_loop rest (tokenize_line pre @ [q]) [] False"
    using tokenize_loop_quoted [OF assms(3), of rest "tokenize_line pre" "[]"] by simp
  also have "\<dots> = tokenize_line pre @ [q] @ tokenize_line rest"
    unfolding tokenize_line_def
    using tokenize_loop_acc [of rest "tokenize_loop pre [] [] False @ [q]" "[]" False] by simp
  finally show ?thesis .
qed

lemma tokenize_line_unterminated:
  assumes "CHR 0x22 \<notin> set pre" "pre = [] \<or> last pre = CHR '' ''" "CHR 0x22 \<notin> set q"
  shows "tokenize_line (pre @ CHR 0x22 # q) =
           tokenize_line pre @ (if q = [] then [] else [q])"
proof -
  have "tokenize_line (pre @ CHR 0x22 # q) =
          tokenize_loop (CHR 0x22 # q) (tokenize_line pre) [] False"
    unfolding tokenize_line_def
    using tokenize_loop_append_boundary [OF assms(1,2), of "[]"] by simp
  also have "\<dots> = tokenize_line pre @ (if q = [] then [] else [q])"
    using tokenize_loop_unterminated [OF assms(3), of "tokenize_line pre" "[]"] by simp
  finally show ?thesis .
qed

lemma tokenize_loop_unquoted_prefix:
  "CHR 0x22 \<notin> set pre \<Longrightarrow>
   tokenize_loop (pre @ rest) tokens current False =
     tokenize_loop rest
       (tokens @ filter (\<lambda>t. t \<noteq> [])
          (butlast ((current @ hd (split_space pre)) # tl (split_space pre))))
       (last ((current @ hd (split_space pre)) # tl (split_space pre))) False"
proof (induction pre arbitrary: tokens current)
  case Nil
  show ?case by simp
next
  case (Cons c cs)
  then have nq: "CHR 0x22 \<notin> set cs" and c: "c \<noteq> CHR 0x22" by auto
  obtain f fs where s: "split_space cs = f # fs"
    using split_space_nonempty [of cs] by (cases "split_space cs") auto
  show ?case
  proof (cases "c = CHR '' ''")
    case True
    show ?thesis
    proof (cases "current = []")
      case True
      with \<open>c = CHR '' ''\<close> show ?thesis
        using Cons.IH [OF nq, of tokens "[]"] by (simp add: s)
    next
      case False
      with \<open>c = CHR '' ''\<close> show ?thesis
        using Cons.IH [OF nq, of "tokens @ [current]" "[]"] by (simp add: s)
    qed
  next
    case False
    then show ?thesis
      using Cons.IH [OF nq, of tokens "current @ [c]"] c by (simp add: s)
  qed
qed

lemma split_space_hd_tl: "hd (split_space cs) # tl (split_space cs) = split_space cs"
  using split_space_nonempty [of cs] by simp

text \<open>
  Claim C7, as amended.  For every line: (1) a line without a quote is cut at its
  spaces, the empty pieces dropped; (2) up to the first quote the line is cut at its
  spaces, and the characters between that quote and the next one (any character but a
  quote: spaces and backslashes are kept as they are, there is no escape) are appended,
  without the quotes, to the text pending since the last space; the closing quote ends
  that token, an empty one too, and what follows is tokenized as a fresh line; so a
  quoted span that starts a word is one token, and a span that follows unquoted
  characters is glued to them; (3) an opening quote that is never closed takes the rest
  of the line into the pending token, without any failure; (4) the line
  \<open>TEXT "Hello World" AT 10,10\<close> yields the four tokens \<open>TEXT\<close>, \<open>Hello World\<close>,
  \<open>AT\<close>, \<open>10,10\<close>.
\<close>

theorem tokenize_line_quote_mode:
  "(CHR 0x22 \<notin> set line \<longrightarrow>
      tokenize_line line = filter (\<lambda>t. t \<noteq> []) (split_space line))
   \<and> (CHR 0x22 \<notin> set pre \<and> CHR 0x22 \<notin> set q \<longrightarrow>
      tokenize_line (pre @ CHR 0x22 # q @ CHR 0x22 # rest) =
        filter (\<lambda>t. t \<noteq> []) (butlast (split_space pre))
        @ [last (split_space pre) @ q] @ tokenize_line rest)
   \<and> (CHR 0x22 \<notin> set pre \<and> CHR 0x22 \<notin> set q \<longrightarrow>
      tokenize_line (pre @ CHR 0x22 # q) =
        filter (\<lambda>t. t \<noteq> []) (butlast (split_space pre))
        @ (if last (split_space pre) @ q = [] then [] else [last (split_space pre) @ q]))
   \<and> tokenize_line (''TEXT '' @ CHR 0x22 # ''Hello World'' @ CHR 0x22 # '' AT 10,10'') =
        [''TEXT'', ''Hello World'', ''AT'', ''10,10'']"
proof (intro conjI impI)
  assume nq: "CHR 0x22 \<notin> set line"
  show "tokenize_line line = filter (\<lambda>t. t \<noteq> []) (split_space line)"
    unfolding tokenize_line_def
    using tokenize_loop_unquoted [OF nq, of "[]"] by (simp add: split_space_hd_tl)
next
  assume a: "CHR 0x22 \<notin> set pre \<and> CHR 0x22 \<notin> set q"
  let ?done = "filter (\<lambda>t. t \<noteq> []) (butlast (split_space pre))"
  let ?pending = "last (split_space pre)"
  have "tokenize_line (pre @ CHR 0x22 # q @ CHR 0x22 # rest) =
          tokenize_loop (CHR 0x22 # q @ CHR 0x22 # rest) ?done ?pending False"
    unfolding tokenize_line_def
    using tokenize_loop_unquoted_prefix [of pre "CHR 0x22 # q @ CHR 0x22 # rest" "[]" "[]"] a
    by (simp add: split_space_hd_tl)
  also have "\<dots> = tokenize_loop rest (?done @ [?pending @ q]) [] False"
    using tokenize_loop_quoted [of q rest ?done ?pending] a by simp
  also have "\<dots> = ?done @ [?pending @ q] @ tokenize_line rest"
    unfolding tokenize_line_def
    using tokenize_loop_acc [of rest "?done @ [?pending @ q]" "[]" False] by simp
  finally show "tokenize_line (pre @ CHR 0x22 # q @ CHR 0x22 # rest) =
      ?done @ [?pending @ q] @ tokenize_line rest" .
next
  assume a: "CHR 0x22 \<notin> set pre \<and> CHR 0x22 \<notin> set q"
  let ?done = "filter (\<lambda>t. t \<noteq> []) (butlast (split_space pre))"
  let ?pending = "last (split_space pre)"
  have "tokenize_line (pre @ CHR 0x22 # q) = tokenize_loop (CHR 0x22 # q) ?done ?pending False"
    unfolding tokenize_line_def
    using tokenize_loop_unquoted_prefix [of pre "CHR 0x22 # q" "[]" "[]"] a
    by (simp add: split_space_hd_tl)
  also have "\<dots> = ?done @ (if ?pending @ q = [] then [] else [?pending @ q])"
    using tokenize_loop_unterminated [of q ?done ?pending] a by simp
  finally show "tokenize_line (pre @ CHR 0x22 # q) =
      ?done @ (if ?pending @ q = [] then [] else [?pending @ q])" .
next
  show "tokenize_line (''TEXT '' @ CHR 0x22 # ''Hello World'' @ CHR 0x22 # '' AT 10,10'') =
        [''TEXT'', ''Hello World'', ''AT'', ''10,10'']"
    by (simp add: tokenize_line_def)
qed

theorem tokenize_line_quote_mode_witness:
  "tokenize_line ''MOVE  ball TO 5,5'' = [''MOVE'', ''ball'', ''TO'', ''5,5'']
   \<and> tokenize_line (''TEXT '' @ CHR 0x22 # (''a '' @ CHR 0x5C # ''n b'') @ CHR 0x22 # '' SIZE 9'') =
         [''TEXT'', ''a '' @ CHR 0x5C # ''n b'', ''SIZE'', ''9'']
   \<and> tokenize_line (''x ab'' @ CHR 0x22 # ''cd ef'' @ CHR 0x22 # ''gh'') =
         [''x'', ''abcd ef'', ''gh'']
   \<and> tokenize_line (''TEXT '' @ CHR 0x22 # ''never closed AT 1,1'') =
         [''TEXT'', ''never closed AT 1,1'']
   \<and> tokenize_line (''x ab'' @ CHR 0x22 # ''c d'') = [''x'', ''abc d'']
   \<and> tokenize_line (''ID '' @ CHR 0x22 # '''' @ CHR 0x22 # '' AT'') = [''ID'', '''', ''AT'']"
proof -
  have s1: "split_space ''TEXT '' = [''TEXT'', '''']" by simp
  have s2: "split_space ''x ab'' = [''x'', ''ab'']" by simp
  have s3: "split_space ''ID '' = [''ID'', '''']" by simp
  have r1: "tokenize_line '' SIZE 9'' = [''SIZE'', ''9'']" by (simp add: tokenize_line_def)
  have r2: "tokenize_line ''gh'' = [''gh'']" by (simp add: tokenize_line_def)
  have r3: "tokenize_line '' AT'' = [''AT'']" by (simp add: tokenize_line_def)
  have a: "tokenize_line ''MOVE  ball TO 5,5'' = [''MOVE'', ''ball'', ''TO'', ''5,5'']"
    using tokenize_line_quote_mode [of "''MOVE  ball TO 5,5''" "[]" "[]" "[]"] by simp
  have b: "tokenize_line (''TEXT '' @ CHR 0x22 # (''a '' @ CHR 0x5C # ''n b'') @ CHR 0x22 # '' SIZE 9'') =
         [''TEXT'', ''a '' @ CHR 0x5C # ''n b'', ''SIZE'', ''9'']"
    using tokenize_line_quote_mode [of "[]" "''TEXT ''" "''a '' @ CHR 0x5C # ''n b''" "'' SIZE 9''"]
    by (simp add: s1 r1)
  have c: "tokenize_line (''x ab'' @ CHR 0x22 # ''cd ef'' @ CHR 0x22 # ''gh'') =
         [''x'', ''abcd ef'', ''gh'']"
    using tokenize_line_quote_mode [of "[]" "''x ab''" "''cd ef''" "''gh''"]
    by (simp add: s2 r2)
  have d: "tokenize_line (''TEXT '' @ CHR 0x22 # ''never closed AT 1,1'') =
         [''TEXT'', ''never closed AT 1,1'']"
    using tokenize_line_quote_mode [of "[]" "''TEXT ''" "''never closed AT 1,1''" "[]"]
    by (simp add: s1)
  have e: "tokenize_line (''x ab'' @ CHR 0x22 # ''c d'') = [''x'', ''abc d'']"
    using tokenize_line_quote_mode [of "[]" "''x ab''" "''c d''" "[]"]
    by (simp add: s2)
  have f: "tokenize_line (''ID '' @ CHR 0x22 # '''' @ CHR 0x22 # '' AT'') = [''ID'', '''', ''AT'']"
    using tokenize_line_quote_mode [of "[]" "''ID ''" "[]" "'' AT''"]
    by (simp add: s3 r3)
  from a b c d e f show ?thesis by blast
qed

text \<open>
  Claim C7 as stated fails where a quote opens in the middle of a word: in
  \<open>ab"cd ef"gh\<close> the quoted span \<open>cd ef\<close> is not a token; the tokens are \<open>abcd ef\<close>
  and \<open>gh\<close>.
\<close>

theorem quoted_span_glued_counterexample:
  "tokenize_line (''ab'' @ CHR 0x22 # ''cd ef'' @ CHR 0x22 # ''gh'') = [''abcd ef'', ''gh'']
   \<and> ''cd ef'' \<notin> set (tokenize_line (''ab'' @ CHR 0x22 # ''cd ef'' @ CHR 0x22 # ''gh''))"
  by (simp add: tokenize_line_def)

section \<open>Properties of the movement engine\<close>

lemma starts_at_0_positions:
  "starts_at_0 (r\<lparr>object_positions := p\<rparr>) = starts_at_0 r"
  by (simp add: starts_at_0_def)

lemma starts_at_0_update:
  "starts_at_0 r \<Longrightarrow> start_frame m = 0 \<Longrightarrow>
   starts_at_0 (r\<lparr>object_moves := (object_moves r)(k \<mapsto> m)\<rparr>)"
  by (simp add: starts_at_0_def)

lemma prepare_objects_starts_at_0:
  "prepare_objects objs r = Inr r' \<Longrightarrow> starts_at_0 r \<Longrightarrow> starts_at_0 r'"
proof (induction objs arbitrary: r)
  case Nil
  then show ?case by simp
next
  case (Cons obj objs)
  define r1 where "r1 = r\<lparr>object_positions := (object_positions r)(object_id obj \<mapsto> object_xy obj)\<rparr>"
  have s1: "starts_at_0 r1" using Cons.prems(2) by (simp add: r1_def starts_at_0_positions)
  show ?case
  proof (cases "is_command obj")
    case False
    with Cons.prems(1) have "prepare_objects objs r = Inr r'" by simp
    then show ?thesis using Cons.IH Cons.prems(2) by blast
  next
    case cmd: True
    show ?thesis
    proof (cases "object_move_to obj")
      case None
      with cmd Cons.prems(1) have "prepare_objects objs r1 = Inr r'"
        by (simp add: r1_def Let_def)
      then show ?thesis using Cons.IH s1 by blast
    next
      case (Some target)
      show ?thesis
      proof (cases "flt_less (Finite 0) (object_move_duration obj)")
        case False
        with cmd Some Cons.prems(1) have "prepare_objects objs r1 = Inr r'"
          by (simp add: r1_def Let_def)
        then show ?thesis using Cons.IH s1 by blast
      next
        case True
        show ?thesis
        proof (cases "int_of_product (object_move_duration obj) (fps (spec r1))")
          case (Inl e)
          with cmd Some True Cons.prems(1) show ?thesis
            by (simp add: r1_def Let_def)
        next
          case (Inr ef)
          define r2 where "r2 = r1\<lparr>object_moves := (object_moves r1)(object_id obj \<mapsto>
                            \<lparr>from_xy = object_xy obj, to_xy = target, start_frame = 0,
                             end_frame = ef, ease_name = object_ease obj\<rparr>)\<rparr>"
          have s2: "starts_at_0 r2" unfolding r2_def by (rule starts_at_0_update [OF s1]) simp
          from cmd Some True Inr Cons.prems(1) have "prepare_objects objs r2 = Inr r'"
            by (simp add: r1_def r2_def Let_def)
          then show ?thesis using Cons.IH s2 by blast
        qed
      qed
    qed
  qed
qed

lemma prepare_moves_starts_at_0:
  "prepare_moves ms r = Inr r' \<Longrightarrow> starts_at_0 r \<Longrightarrow> starts_at_0 r'"
proof (induction ms arbitrary: r)
  case Nil
  then show ?case by simp
next
  case (Cons mv ms)
  show ?case
  proof (cases "object_positions r (MoveCommand.obj_id mv)")
    case None
    with Cons.prems(1) have "prepare_moves ms r = Inr r'" by simp
    then show ?thesis using Cons.IH Cons.prems(2) by blast
  next
    case (Some current_pos)
    show ?thesis
    proof (cases "int_of_product (MoveCommand.duration mv) (fps (spec r))")
      case (Inl e)
      with Some Cons.prems(1) show ?thesis by simp
    next
      case (Inr ef)
      define r2 where "r2 = r\<lparr>object_moves := (object_moves r)(MoveCommand.obj_id mv \<mapsto>
                    \<lparr>from_xy = current_pos, to_xy = (to_x mv, to_y mv), start_frame = 0,
                     end_frame = ef, ease_name = MoveCommand.ease mv\<rparr>)\<rparr>"
      have s2: "starts_at_0 r2" unfolding r2_def
        by (rule starts_at_0_update [OF Cons.prems(2)]) simp
      from Some Inr Cons.prems(1) have "prepare_moves ms r2 = Inr r'"
        by (simp add: r2_def)
      then show ?thesis using Cons.IH s2 by blast
    qed
  qed
qed

lemma init_starts_at_0:
  assumes "AnimationRenderer_init sp w h = Inr r"
  shows "starts_at_0 r"
proof -
  from assms obtain tf bg where
    p: "prepare_movements \<lparr>spec = sp, width = min w MAX_WIDTH, height = min h MAX_HEIGHT, frames = [],
                  total_frames = tf, bg_color = bg, object_positions = Map.empty,
                  object_moves = Map.empty\<rparr> = Inr r"
    by (auto simp: AnimationRenderer_init_def split: sum.splits)
  define r0 where "r0 = \<lparr>spec = sp, width = min w MAX_WIDTH, height = min h MAX_HEIGHT, frames = [],
                  total_frames = tf, bg_color = bg, object_positions = Map.empty,
                  object_moves = (Map.empty :: string \<rightharpoonup> motion)\<rparr>"
  have s0: "starts_at_0 r0" by (simp add: starts_at_0_def r0_def)
  from p obtain r1 where a: "prepare_objects (objects (spec r0)) r0 = Inr r1"
    and b: "prepare_moves (moves (spec r1)) r1 = Inr r"
    by (auto simp: prepare_movements_def r0_def split: sum.splits)
  from prepare_objects_starts_at_0 [OF a s0] prepare_moves_starts_at_0 [OF b] show ?thesis by blast
qed

lemma EASE_FUNCTIONS_easing:
  "(case EASE_FUNCTIONS name of None \<Rightarrow> ease_linear | Some f \<Rightarrow> f) t = easing name t"
  by (simp add: EASE_FUNCTIONS_def easing_def ease_linear_def ease_in_def ease_out_def)

lemma get_position_cases:
  assumes "object_moves r oid = Some m" "start_frame m = 0"
  shows "(0 \<le> f \<and> f < end_frame m \<longrightarrow>
            get_position r oid f =
              (interpolate (fst (from_xy m)) (fst (to_xy m))
                 (easing (ease_name m) (truediv f (end_frame m))),
               interpolate (snd (from_xy m)) (snd (to_xy m))
                 (easing (ease_name m) (truediv f (end_frame m)))))
         \<and> (0 \<le> f \<and> end_frame m \<le> f \<longrightarrow> get_position r oid f = to_xy m)"
proof (intro conjI impI)
  assume f: "0 \<le> f \<and> f < end_frame m"
  then have mx: "max 1 (end_frame m - 0) = end_frame m" by simp
  show "get_position r oid f =
              (interpolate (fst (from_xy m)) (fst (to_xy m))
                 (easing (ease_name m) (truediv f (end_frame m))),
               interpolate (snd (from_xy m)) (snd (to_xy m))
                 (easing (ease_name m) (truediv f (end_frame m))))"
    using f assms by (simp add: get_position_def Let_def EASE_FUNCTIONS_easing)
next
  assume "0 \<le> f \<and> end_frame m \<le> f"
  then show "get_position r oid f = to_xy m"
    using assms by (simp add: get_position_def)
qed

lemma hex_to_rgb_default: "hex_to_rgb ''#202020'' = Inr (32, 32, 32)"
  by code_simp

lemma ball_scene_init:
  assumes "int_of_product (Finite 3) n = Inr tf" "int_of_product d n = Inr ef"
    "flt_less (Finite 0) d"
  shows "AnimationRenderer_init (ball_scene n target d e) 640 360 =
           Inr (ball_renderer n target d e tf ef)"
  using assms
  by (simp add: AnimationRenderer_init_def ball_scene_def ball_renderer_def hex_to_rgb_default
      prepare_movements_def MAX_WIDTH_def MAX_HEIGHT_def Let_def)

lemma int_of_product_3_2: "int_of_product (Finite 3) 2 = Inr 6" by code_simp
lemma int_of_product_2_2: "int_of_product (Finite 2) 2 = Inr 4" by code_simp
lemma int_of_product_quarter_2: "int_of_product (Finite (1 / 4)) 2 = Inr 0" by code_simp

lemma truediv_0: "truediv 0 e = 0" by (simp add: truediv_def fl_0)

lemma fl_1: "fl 1 = 1" using fl_of_int [of 1] by simp

lemma easing_0: "easing name 0 = 0"
  by (simp add: easing_def fl_0 fl_1)

lemma py_trunc_of_int: "py_trunc (of_int n) = n"
  by (simp add: py_trunc_def)

lemma interpolate_0: "\<bar>a\<bar> < 2 ^ 53 \<Longrightarrow> interpolate a b 0 = a"
  by (simp add: interpolate_def float_of_int_def fl_0 fl_of_int py_trunc_of_int)

lemma slow_ball_init:
  "AnimationRenderer_init (ball_scene 2 (3, 0) (Finite 2) ''linear'') 640 360 =
     Inr (ball_renderer 2 (3, 0) (Finite 2) ''linear'' 6 4)"
  by (rule ball_scene_init [OF int_of_product_3_2 int_of_product_2_2]) simp

lemma slow_ball_frame_1:
  "interpolate 0 3 (easing ''linear'' (truediv 1 4)) = 0"
  by code_simp

text \<open>
  Claim C1, as amended.  For every renderer that the constructor returns, every object
  with a motion descriptor and every frame index \<open>f\<close>: when \<open>0 \<le> f < end_frame\<close> the
  position per axis is \<open>int(from + (to - from) * ease(f / end_frame))\<close>, computed in
  floating point (every operation rounded by \<open>fl\<close>) and then truncated toward zero,
  not rounded, with \<open>ease\<close> the descriptor's curve (\<open>t * t\<close> for \<open>ease-in\<close>,
  \<open>1 - (1 - t) * (1 - t)\<close> for \<open>ease-out\<close>, \<open>t\<close> for \<open>linear\<close> and any other name);
  when \<open>f \<ge> end_frame\<close> the position is \<open>to\<close> exactly.
\<close>

theorem get_position_truncates:
  assumes "AnimationRenderer_init sp w h = Inr r" and "object_moves r oid = Some m"
  shows "(0 \<le> f \<and> f < end_frame m \<longrightarrow>
            get_position r oid f =
              (let t = fl (of_int f / of_int (end_frame m));
                   e = (if ease_name m = ''ease-in'' then fl (t * t)
                        else if ease_name m = ''ease-out''
                        then fl (1 - fl (fl (1 - t) * fl (1 - t)))
                        else t);
                   u = fl (fl (of_int (fst (from_xy m)))
                           + fl (fl (of_int (fst (to_xy m) - fst (from_xy m))) * e));
                   v = fl (fl (of_int (snd (from_xy m)))
                           + fl (fl (of_int (snd (to_xy m) - snd (from_xy m))) * e))
               in (if 0 \<le> u then \<lfloor>u\<rfloor> else \<lceil>u\<rceil>, if 0 \<le> v then \<lfloor>v\<rfloor> else \<lceil>v\<rceil>)))
         \<and> (0 \<le> f \<and> end_frame m \<le> f \<longrightarrow> get_position r oid f = to_xy m)"
proof -
  have "starts_at_0 r" using assms(1) by (rule init_starts_at_0)
  with assms(2) have "start_frame m = 0" by (simp add: starts_at_0_def)
  with assms(2) show ?thesis
    using get_position_cases [of r oid m f]
    by (simp add: interpolate_def easing_def truediv_def float_of_int_def py_trunc_def Let_def)
qed

lemma ball_init_2_2:
  "AnimationRenderer_init (ball_scene 2 (3, 0) (Finite 2) e) 640 360 =
     Inr (ball_renderer 2 (3, 0) (Finite 2) e 6 4)"
  by (rule ball_scene_init [OF int_of_product_3_2 int_of_product_2_2]) simp

theorem get_position_truncates_witness:
  "AnimationRenderer_init (ball_scene 2 (3, 0) (Finite 2) ''linear'') 640 360 =
     Inr (ball_renderer 2 (3, 0) (Finite 2) ''linear'' 6 4)
   \<and> object_moves (ball_renderer 2 (3, 0) (Finite 2) ''linear'' 6 4) ''ball'' =
       Some \<lparr>from_xy = (0, 0), to_xy = (3, 0), start_frame = 0, end_frame = 4,
             ease_name = ''linear''\<rparr>
   \<and> map (get_position (ball_renderer 2 (3, 0) (Finite 2) ''linear'' 6 4) ''ball'')
         [0, 1, 2, 3, 4, 5] = [(0, 0), (0, 0), (1, 0), (2, 0), (3, 0), (3, 0)]
   \<and> map (get_position (ball_renderer 2 (3, 0) (Finite 2) ''ease-in'' 6 4) ''ball'')
         [0, 1, 2, 3, 4] = [(0, 0), (0, 0), (0, 0), (1, 0), (3, 0)]
   \<and> map (get_position (ball_renderer 2 (3, 0) (Finite 2) ''ease-out'' 6 4) ''ball'')
         [0, 1, 2, 3, 4] = [(0, 0), (1, 0), (2, 0), (2, 0), (3, 0)]"
proof -
  let ?m = "\<lambda>e. \<lparr>from_xy = (0, 0), to_xy = (3 :: int, 0 :: int), start_frame = 0, end_frame = 4,
             ease_name = e\<rparr>"
  have m: "object_moves (ball_renderer 2 (3, 0) (Finite 2) e 6 4) ''ball'' = Some (?m e)" for e
    by (simp add: ball_renderer_def)
  note t = get_position_truncates [OF ball_init_2_2 m]
  have inner: "0 \<le> f \<and> f < end_frame (?m e) \<longleftrightarrow> 0 \<le> f \<and> f < 4" for f e by simp
  have outer: "0 \<le> f \<and> end_frame (?m e) \<le> f \<longleftrightarrow> 4 \<le> f" for f e by auto
  note i = t [THEN conjunct1, rule_format, unfolded inner]
  note o = t [THEN conjunct2, rule_format, unfolded outer]
  have l0: "get_position (ball_renderer 2 (3, 0) (Finite 2) ''linear'' 6 4) ''ball'' 0 = (0, 0)"
    unfolding i [of 0 "''linear''", simplified] by code_simp
  have l1: "get_position (ball_renderer 2 (3, 0) (Finite 2) ''linear'' 6 4) ''ball'' 1 = (0, 0)"
    unfolding i [of 1 "''linear''", simplified] by code_simp
  have l2: "get_position (ball_renderer 2 (3, 0) (Finite 2) ''linear'' 6 4) ''ball'' 2 = (1, 0)"
    unfolding i [of 2 "''linear''", simplified] by code_simp
  have l3: "get_position (ball_renderer 2 (3, 0) (Finite 2) ''linear'' 6 4) ''ball'' 3 = (2, 0)"
    unfolding i [of 3 "''linear''", simplified] by code_simp
  have l4: "get_position (ball_renderer 2 (3, 0) (Finite 2) ''linear'' 6 4) ''ball'' 4 = (3, 0)"
    using o [of 4 "''linear''"] by simp
  have l5: "get_position (ball_renderer 2 (3, 0) (Finite 2) ''linear'' 6 4) ''ball'' 5 = (3, 0)"
    using o [of 5 "''linear''"] by simp
  have a0: "get_position (ball_renderer 2 (3, 0) (Finite 2) ''ease-in'' 6 4) ''ball'' 0 = (0, 0)"
    unfolding i [of 0 "''ease-in''", simplified] by code_simp
  have a1: "get_position (ball_renderer 2 (3, 0) (Finite 2) ''ease-in'' 6 4) ''ball'' 1 = (0, 0)"
    unfolding i [of 1 "''ease-in''", simplified] by code_simp
  have a2: "get_position (ball_renderer 2 (3, 0) (Finite 2) ''ease-in'' 6 4) ''ball'' 2 = (0, 0)"
    unfolding i [of 2 "''ease-in''", simplified] by code_simp
  have a3: "get_position (ball_renderer 2 (3, 0) (Finite 2) ''ease-in'' 6 4) ''ball'' 3 = (1, 0)"
    unfolding i [of 3 "''ease-in''", simplified] by code_simp
  have a4: "get_position (ball_renderer 2 (3, 0) (Finite 2) ''ease-in'' 6 4) ''ball'' 4 = (3, 0)"
    using o [of 4 "''ease-in''"] by simp
  have b0: "get_position (ball_renderer 2 (3, 0) (Finite 2) ''ease-out'' 6 4) ''ball'' 0 = (0, 0)"
    unfolding i [of 0 "''ease-out''", simplified] by code_simp
  have b1: "get_position (ball_renderer 2 (3, 0) (Finite 2) ''ease-out'' 6 4) ''ball'' 1 = (1, 0)"
    unfolding i [of 1 "''ease-out''", simplified] by code_simp
  have b2: "get_position (ball_renderer 2 (3, 0) (Finite 2) ''ease-out'' 6 4) ''ball'' 2 = (2, 0)"
    unfolding i [of 2 "''ease-out''", simplified] by code_simp
  have b3: "get_position (ball_renderer 2 (3, 0) (Finite 2) ''ease-out'' 6 4) ''ball'' 3 = (2, 0)"
    unfolding i [of 3 "''ease-out''", simplified] by code_simp
  have b4: "get_position (ball_renderer 2 (3, 0) (Finite 2) ''ease-out'' 6 4) ''ball'' 4 = (3, 0)"
    using o [of 4 "''ease-out''"] by simp
  from ball_init_2_2 [of "''linear''"] m [of "''linear''"]
    l0 l1 l2 l3 l4 l5 a0 a1 a2 a3 a4 b0 b1 b2 b3 b4
  show ?thesis by simp
qed

text \<open>
  Claim C1 as stated fails: in the scene \<open>FPS 2 / SHAPE CIRCLE ID ball AT 0,0 MOVE TO 3,0
  DUR 2\<close> the move lasts 4 frames; at frame 1 the interpolated abscissa is \<open>0.75\<close>, which
  the program truncates to 0 while rounding gives 1.
\<close>

theorem rounded_position_counterexample:
  "AnimationRenderer_init (ball_scene 2 (3, 0) (Finite 2) ''linear'') 640 360 =
     Inr (ball_renderer 2 (3, 0) (Finite 2) ''linear'' 6 4)
   \<and> fst (get_position (ball_renderer 2 (3, 0) (Finite 2) ''linear'' 6 4) ''ball'' 1) = 0
   \<and> rounded_interpolate 0 3 (easing ''linear'' (truediv 1 4)) = 1"
proof -
  have a: "fst (get_position (ball_renderer 2 (3, 0) (Finite 2) ''linear'' 6 4) ''ball'' 1) = 0"
    by (simp add: get_position_def ball_renderer_def Let_def EASE_FUNCTIONS_easing
        slow_ball_frame_1)
  have b: "rounded_interpolate 0 3 (easing ''linear'' (truediv 1 4)) = 1" by code_simp
  from slow_ball_init a b show ?thesis by simp
qed

lemma still_ball_init:
  "AnimationRenderer_init (ball_scene 2 (5, 5) (Finite (1 / 4)) ''linear'') 640 360 =
     Inr (ball_renderer 2 (5, 5) (Finite (1 / 4)) ''linear'' 6 0)"
  by (rule ball_scene_init [OF int_of_product_3_2 int_of_product_quarter_2]) simp

lemma get_position_at_0:
  assumes "object_moves r oid = Some m" "start_frame m = 0" "0 < end_frame m"
    "\<bar>fst (from_xy m)\<bar> < 2 ^ 53" "\<bar>snd (from_xy m)\<bar> < 2 ^ 53"
  shows "get_position r oid 0 = from_xy m"
  using assms
  by (simp add: get_position_def Let_def EASE_FUNCTIONS_easing truediv_0 easing_0 interpolate_0)

text \<open>
  Claim C2, as amended.  For every renderer that the constructor returns and every
  motion descriptor, whatever its easing kind: the position at frame \<open>end_frame\<close> is
  \<open>to\<close> (for \<open>end_frame \<ge> 0\<close>, as every frame index is); the position at frame 0 is
  \<open>from\<close> when \<open>end_frame > 0\<close> (the coordinates of \<open>from\<close> being integers that a float
  holds exactly, as all clamped coordinates are), and it is \<open>to\<close> when \<open>end_frame = 0\<close>.
\<close>

theorem boundary_positions:
  assumes "AnimationRenderer_init sp w h = Inr r" and "object_moves r oid = Some m"
  shows "(0 \<le> end_frame m \<longrightarrow> get_position r oid (end_frame m) = to_xy m)
       \<and> (0 < end_frame m \<and> \<bar>fst (from_xy m)\<bar> < 2 ^ 53 \<and> \<bar>snd (from_xy m)\<bar> < 2 ^ 53 \<longrightarrow>
            get_position r oid 0 = from_xy m)
       \<and> (end_frame m \<le> 0 \<longrightarrow> get_position r oid 0 = to_xy m)"
proof -
  have "starts_at_0 r" using assms(1) by (rule init_starts_at_0)
  with assms(2) have s: "start_frame m = 0" by (simp add: starts_at_0_def)
  have a: "0 \<le> end_frame m \<longrightarrow> get_position r oid (end_frame m) = to_xy m"
    using assms(2) s by (simp add: get_position_def)
  have b: "0 < end_frame m \<and> \<bar>fst (from_xy m)\<bar> < 2 ^ 53 \<and> \<bar>snd (from_xy m)\<bar> < 2 ^ 53 \<longrightarrow>
            get_position r oid 0 = from_xy m"
    using get_position_at_0 [OF assms(2) s] by blast
  have c: "end_frame m \<le> 0 \<longrightarrow> get_position r oid 0 = to_xy m"
    using assms(2) s by (simp add: get_position_def)
  from a b c show ?thesis by blast
qed

theorem boundary_positions_witness:
  "AnimationRenderer_init (ball_scene 2 (3, 0) (Finite 2) ''ease-out'') 640 360 =
     Inr (ball_renderer 2 (3, 0) (Finite 2) ''ease-out'' 6 4)
   \<and> object_moves (ball_renderer 2 (3, 0) (Finite 2) ''ease-out'' 6 4) ''ball'' =
       Some \<lparr>from_xy = (0, 0), to_xy = (3, 0), start_frame = 0, end_frame = 4,
             ease_name = ''ease-out''\<rparr>
   \<and> get_position (ball_renderer 2 (3, 0) (Finite 2) ''ease-out'' 6 4) ''ball'' 4 = (3, 0)
   \<and> get_position (ball_renderer 2 (3, 0) (Finite 2) ''ease-out'' 6 4) ''ball'' 0 = (0, 0)"
proof -
  let ?r = "ball_renderer 2 (3, 0) (Finite 2) ''ease-out'' 6 4"
  let ?m = "\<lparr>from_xy = (0, 0), to_xy = (3, 0), start_frame = 0, end_frame = 4,
             ease_name = ''ease-out''\<rparr>"
  have i: "AnimationRenderer_init (ball_scene 2 (3, 0) (Finite 2) ''ease-out'') 640 360 = Inr ?r"
    by (rule ball_scene_init [OF int_of_product_3_2 int_of_product_2_2]) simp
  have m: "object_moves ?r ''ball'' = Some ?m" by (simp add: ball_renderer_def)
  from boundary_positions [OF i m] have "get_position ?r ''ball'' 4 = (3, 0)"
    and "get_position ?r ''ball'' 0 = (0, 0)" by simp_all
  with i m show ?thesis by simp
qed

text \<open>
  Claim C2 as stated fails for \<open>end_frame = 0\<close>: in the scene \<open>FPS 2 / SHAPE CIRCLE ID
  ball AT 0,0 MOVE TO 5,5 DUR 0.25\<close> the move lasts \<open>int(0.25 * 2) = 0\<close> frames, and at
  frame 0 the ball is already at \<open>to = (5, 5)\<close>, not at \<open>from = (0, 0)\<close>.
\<close>

theorem zero_length_move_counterexample:
  "AnimationRenderer_init (ball_scene 2 (5, 5) (Finite (1 / 4)) ''linear'') 640 360 =
     Inr (ball_renderer 2 (5, 5) (Finite (1 / 4)) ''linear'' 6 0)
   \<and> map_option from_xy
        (object_moves (ball_renderer 2 (5, 5) (Finite (1 / 4)) ''linear'' 6 0) ''ball'') =
       Some (0, 0)
   \<and> map_option end_frame
        (object_moves (ball_renderer 2 (5, 5) (Finite (1 / 4)) ''linear'' 6 0) ''ball'') =
       Some 0
   \<and> get_position (ball_renderer 2 (5, 5) (Finite (1 / 4)) ''linear'' 6 0) ''ball'' 0 = (5, 5)"
  using still_ball_init by (simp add: ball_renderer_def get_position_def)

section \<open>Properties of the parser\<close>

text \<open>The errors that each keyword loop and each command parser can raise.\<close>

lemma parse_coords_error: "parse_coords t = Inl e \<Longrightarrow> e = ValueError"
  by (auto simp: parse_coords_def split: list.splits option.splits)

lemma text_loop_errors:
  "text_loop n cmd ts = Inl e \<Longrightarrow> e = ValueError \<or> (\<exists>c. e = InvalidColor n c \<and> \<not> validate_color c)"
proof (induction "length ts" arbitrary: ts cmd rule: less_induct)
  case less
  show ?case
  proof (cases ts)
    case Nil
    with less.prems show ?thesis by simp
  next
    case (Cons tok rest)
    note IH = less.hyps [unfolded Cons]
    have l1: "length (tl rest) < length (tok # rest)" by simp
    have l2: "length (drop 2 rest) < length (tok # rest)" by simp
    have l0: "length rest < length (tok # rest)" by simp
    note p = less.prems [unfolded Cons]
    consider (kAT) "upper tok = ''AT''" | (kSIZE) "upper tok = ''SIZE''" | (kCOLOR) "upper tok = ''COLOR''" | (kID) "upper tok = ''ID''" | (kMOVE) "upper tok = ''MOVE''" | (kDUR) "upper tok = ''DUR''" | (other) "upper tok \<noteq> ''AT''" "upper tok \<noteq> ''SIZE''" "upper tok \<noteq> ''COLOR''" "upper tok \<noteq> ''ID''" "upper tok \<noteq> ''MOVE''" "upper tok \<noteq> ''DUR''"
      by blast
    then show ?thesis
    proof cases
      case kAT
      show ?thesis
      proof (cases "rest = []")
        case True
        with kAT p IH [OF l0] show ?thesis by (simp add: Let_def)
      next
        case False
        with kAT p IH [OF l1] show ?thesis by (auto simp: Let_def dest: parse_coords_error split: sum.splits option.splits prod.splits)
      qed
    next
      case kSIZE
      show ?thesis
      proof (cases "rest = []")
        case True
        with kSIZE p IH [OF l0] show ?thesis by (simp add: Let_def)
      next
        case False
        with kSIZE p IH [OF l1] show ?thesis by (simp add: Let_def split: option.splits)
      qed
    next
      case kCOLOR
      show ?thesis
      proof (cases "rest = []")
        case True
        with kCOLOR p IH [OF l0] show ?thesis by (simp add: Let_def)
      next
        case False
        with kCOLOR p IH [OF l1] show ?thesis by (auto simp: Let_def split: if_splits)
      qed
    next
      case kID
      show ?thesis
      proof (cases "rest = []")
        case True
        with kID p IH [OF l0] show ?thesis by (simp add: Let_def)
      next
        case False
        with kID p IH [OF l1] show ?thesis by (simp add: Let_def)
      qed
    next
      case kMOVE
      show ?thesis
      proof (cases "2 \<le> length rest \<and> upper (hd rest) = ''TO''")
        case False
        with kMOVE p IH [OF l0] show ?thesis by (simp add: Let_def)
      next
        case True
        with kMOVE p IH [OF l2] show ?thesis by (auto simp: Let_def dest: parse_coords_error split: sum.splits option.splits)
      qed
    next
      case kDUR
      show ?thesis
      proof (cases "rest = []")
        case True
        with kDUR p IH [OF l0] show ?thesis by (simp add: Let_def)
      next
        case False
        with kDUR p IH [OF l1] show ?thesis by (simp add: Let_def split: option.splits)
      qed
    next
      case other
      with p IH [OF l0] show ?thesis by (simp add: Let_def)
    qed
  qed
qed

lemma shape_loop_errors:
  "shape_loop n cmd ts = Inl e \<Longrightarrow> e = ValueError \<or> (\<exists>c. e = InvalidColor n c \<and> \<not> validate_color c)"
proof (induction "length ts" arbitrary: ts cmd rule: less_induct)
  case less
  show ?case
  proof (cases ts)
    case Nil
    with less.prems show ?thesis by simp
  next
    case (Cons tok rest)
    note IH = less.hyps [unfolded Cons]
    have l1: "length (tl rest) < length (tok # rest)" by simp
    have l2: "length (drop 2 rest) < length (tok # rest)" by simp
    have l0: "length rest < length (tok # rest)" by simp
    note p = less.prems [unfolded Cons]
    consider (kID) "upper tok = ''ID''" | (kAT) "upper tok = ''AT''" | (kRADIUS) "upper tok = ''RADIUS''" | (kWIDTH) "upper tok = ''WIDTH''" | (kHEIGHT) "upper tok = ''HEIGHT''" | (kCOLOR) "upper tok = ''COLOR''" | (kMOVE) "upper tok = ''MOVE''" | (kDUR) "upper tok = ''DUR''" | (kEASE) "upper tok = ''EASE''" | (other) "upper tok \<noteq> ''ID''" "upper tok \<noteq> ''AT''" "upper tok \<noteq> ''RADIUS''" "upper tok \<noteq> ''WIDTH''" "upper tok \<noteq> ''HEIGHT''" "upper tok \<noteq> ''COLOR''" "upper tok \<noteq> ''MOVE''" "upper tok \<noteq> ''DUR''" "upper tok \<noteq> ''EASE''"
      by blast
    then show ?thesis
    proof cases
      case kID
      show ?thesis
      proof (cases "rest = []")
        case True
        with kID p IH [OF l0] show ?thesis by (simp add: Let_def)
      next
        case False
        with kID p IH [OF l1] show ?thesis by (simp add: Let_def)
      qed
    next
      case kAT
      show ?thesis
      proof (cases "rest = []")
        case True
        with kAT p IH [OF l0] show ?thesis by (simp add: Let_def)
      next
        case False
        with kAT p IH [OF l1] show ?thesis by (auto simp: Let_def dest: parse_coords_error split: sum.splits option.splits prod.splits)
      qed
    next
      case kRADIUS
      show ?thesis
      proof (cases "rest = []")
        case True
        with kRADIUS p IH [OF l0] show ?thesis by (simp add: Let_def)
      next
        case False
        with kRADIUS p IH [OF l1] show ?thesis by (simp add: Let_def split: option.splits)
      qed
    next
      case kWIDTH
      show ?thesis
      proof (cases "rest = []")
        case True
        with kWIDTH p IH [OF l0] show ?thesis by (simp add: Let_def)
      next
        case False
        with kWIDTH p IH [OF l1] show ?thesis by (simp add: Let_def split: option.splits)
      qed
    next
      case kHEIGHT
      show ?thesis
      proof (cases "rest = []")
        case True
        with kHEIGHT p IH [OF l0] show ?thesis by (simp add: Let_def)
      next
        case False
        with kHEIGHT p IH [OF l1] show ?thesis by (simp add: Let_def split: option.splits)
      qed
    next
      case kCOLOR
      show ?thesis
      proof (cases "rest = []")
        case True
        with kCOLOR p IH [OF l0] show ?thesis by (simp add: Let_def)
      next
        case False
        with kCOLOR p IH [OF l1] show ?thesis by (auto simp: Let_def split: if_splits)
      qed
    next
      case kMOVE
      show ?thesis
      proof (cases "2 \<le> length rest \<and> upper (hd rest) = ''TO''")
        case False
        with kMOVE p IH [OF l0] show ?thesis by (simp add: Let_def)
      next
        case True
        with kMOVE p IH [OF l2] show ?thesis by (auto simp: Let_def dest: parse_coords_error split: sum.splits option.splits)
      qed
    next
      case kDUR
      show ?thesis
      proof (cases "rest = []")
        case True
        with kDUR p IH [OF l0] show ?thesis by (simp add: Let_def)
      next
        case False
        with kDUR p IH [OF l1] show ?thesis by (simp add: Let_def split: option.splits)
      qed
    next
      case kEASE
      show ?thesis
      proof (cases "rest = []")
        case True
        with kEASE p IH [OF l0] show ?thesis by (simp add: Let_def)
      next
        case False
        with kEASE p IH [OF l1] show ?thesis by (auto simp: Let_def split: if_splits)
      qed
    next
      case other
      with p IH [OF l0] show ?thesis by (simp add: Let_def)
    qed
  qed
qed

lemma move_loop_errors:
  "move_loop cmd ts = Inl e \<Longrightarrow> e = ValueError"
proof (induction "length ts" arbitrary: ts cmd rule: less_induct)
  case less
  show ?case
  proof (cases ts)
    case Nil
    with less.prems show ?thesis by simp
  next
    case (Cons tok rest)
    note IH = less.hyps [unfolded Cons]
    have l1: "length (tl rest) < length (tok # rest)" by simp
    have l2: "length (drop 2 rest) < length (tok # rest)" by simp
    have l0: "length rest < length (tok # rest)" by simp
    note p = less.prems [unfolded Cons]
    consider (kTO) "upper tok = ''TO''" | (kDUR) "upper tok = ''DUR''" | (kEASE) "upper tok = ''EASE''" | (other) "upper tok \<noteq> ''TO''" "upper tok \<noteq> ''DUR''" "upper tok \<noteq> ''EASE''"
      by blast
    then show ?thesis
    proof cases
      case kTO
      show ?thesis
      proof (cases "rest = []")
        case True
        with kTO p IH [OF l0] show ?thesis by (simp add: Let_def)
      next
        case False
        with kTO p IH [OF l1] show ?thesis by (auto simp: Let_def dest: parse_coords_error split: sum.splits option.splits prod.splits)
      qed
    next
      case kDUR
      show ?thesis
      proof (cases "rest = []")
        case True
        with kDUR p IH [OF l0] show ?thesis by (simp add: Let_def)
      next
        case False
        with kDUR p IH [OF l1] show ?thesis by (simp add: Let_def split: option.splits)
      qed
    next
      case kEASE
      show ?thesis
      proof (cases "rest = []")
        case True
        with kEASE p IH [OF l0] show ?thesis by (simp add: Let_def)
      next
        case False
        with kEASE p IH [OF l1] show ?thesis by (simp add: Let_def)
      qed
    next
      case other
      with p IH [OF l0] show ?thesis by (simp add: Let_def)
    qed
  qed
qed


lemma parse_text_command_errors:
  assumes "parse_text_command ts n = Inl e"
  shows "e = TextRequiresContent n \<or> e = ValueError
         \<or> (\<exists>c. e = InvalidColor n c \<and> \<not> validate_color c)"
proof (cases "ts = []")
  case True
  with assms show ?thesis by (simp add: parse_text_command_def)
next
  case False
  with assms obtain cmd where "text_loop n cmd (tl ts) = Inl e"
    by (simp add: parse_text_command_def)
  from text_loop_errors [OF this] show ?thesis by blast
qed

lemma parse_shape_command_errors:
  assumes "parse_shape_command ts n = Inl e"
  shows "e = ShapeRequiresType n \<or> (\<exists>t. e = UnknownShapeType n t) \<or> e = ValueError
         \<or> (\<exists>c. e = InvalidColor n c \<and> \<not> validate_color c)"
proof (cases "ts = []")
  case True
  with assms show ?thesis by (simp add: parse_shape_command_def)
next
  case ne: False
  show ?thesis
  proof (cases "upper (hd ts) \<in> set ALLOWED_SHAPE_TYPES")
    case False
    with ne assms show ?thesis by (auto simp: parse_shape_command_def)
  next
    case True
    with ne assms obtain cmd where "shape_loop n cmd (tl ts) = Inl e"
      by (simp add: parse_shape_command_def)
    from shape_loop_errors [OF this] show ?thesis by blast
  qed
qed

lemma parse_move_command_errors:
  assumes "parse_move_command ts n = Inl e"
  shows "e = MoveRequires n \<or> e = ValueError"
proof (cases "length ts < 4")
  case True
  with assms show ?thesis by (simp add: parse_move_command_def)
next
  case False
  with assms obtain cmd where "move_loop cmd (tl ts) = Inl e"
    by (simp add: parse_move_command_def)
  from move_loop_errors [OF this] show ?thesis by blast
qed

lemma parse_line_skip:
  "line_tokens raw = [] \<Longrightarrow> parse_line n raw st = Inr st"
  by (auto simp: parse_line_def line_tokens_def Let_def split: if_splits)

lemma parse_line_command:
  "line_tokens raw \<noteq> [] \<Longrightarrow>
   parse_line n raw st =
     (if line_command raw \<notin> set ALLOWED_COMMANDS then Inl (UnknownCommand n (line_command raw))
      else (case run_command n (line_command raw) (line_tokens raw) st of
              Inl ValueError \<Rightarrow> Inl (InvalidSyntax n)
            | res \<Rightarrow> res))"
  by (auto simp: parse_line_def line_tokens_def line_command_def Let_def split: if_splits)

text \<open>The six commands, one lemma each.\<close>

lemma run_command_TEXT:
  "run_command n ''TEXT'' ts (sp, c) =
     (if MAX_OBJECTS < c + 1 then Inl (TooManyObjects n)
      else (case parse_text_command (tl ts) n of
              Inl e \<Rightarrow> Inl e
            | Inr text_cmd \<Rightarrow> Inr (sp\<lparr>objects := objects sp @ [Text text_cmd]\<rparr>, c + 1)))"
  by (simp add: run_command_def)

lemma run_command_SHAPE:
  "run_command n ''SHAPE'' ts (sp, c) =
     (if MAX_OBJECTS < c + 1 then Inl (TooManyObjects n)
      else (case parse_shape_command (tl ts) n of
              Inl e \<Rightarrow> Inl e
            | Inr shape_cmd \<Rightarrow> Inr (sp\<lparr>objects := objects sp @ [Shape shape_cmd]\<rparr>, c + 1)))"
  by (simp add: run_command_def)

lemma run_command_MOVE:
  "run_command n ''MOVE'' ts (sp, c) =
     (case parse_move_command (tl ts) n of
        Inl e \<Rightarrow> Inl e
      | Inr move_cmd \<Rightarrow> Inr (sp\<lparr>moves := moves sp @ [move_cmd]\<rparr>, c))"
  by (simp add: run_command_def)

lemma run_command_BACKGROUND:
  "run_command n ''BACKGROUND'' ts (sp, c) =
     (let col = (if 1 < length ts then ts ! 1 else ''#202020'') in
      if \<not> validate_color col then Inl (InvalidColor n col)
      else Inr (sp\<lparr>background := col\<rparr>, c))"
  by (simp add: run_command_def)

lemma run_command_FPS:
  "run_command n ''FPS'' ts (sp, c) =
     (case (if 1 < length ts then py_int (ts ! 1) else Some 24) of
        None \<Rightarrow> Inl ValueError
      | Some k \<Rightarrow>
          if k < 1 \<or> MAX_FPS < k then Inl (FpsOutOfRange n) else Inr (sp\<lparr>fps := k\<rparr>, c))"
  by (simp add: run_command_def)

lemma run_command_DURATION:
  "run_command n ''DURATION'' ts (sp, c) =
     (case (if 1 < length ts then py_float (ts ! 1) else Some (Finite 3)) of
        None \<Rightarrow> Inl ValueError
      | Some d \<Rightarrow>
          if flt_le d (Finite 0) \<or> flt_less MAX_DURATION d then Inl (DurationOutOfRange n)
          else Inr (sp\<lparr>AnimationSpec.duration := d\<rparr>, c))"
  by (simp add: run_command_def)

lemma allowed_command_cases:
  "k \<in> set ALLOWED_COMMANDS \<Longrightarrow>
   k = ''BACKGROUND'' \<or> k = ''FPS'' \<or> k = ''DURATION'' \<or> k = ''TEXT'' \<or> k = ''SHAPE'' \<or> k = ''MOVE''"
  by (simp add: ALLOWED_COMMANDS_def)

lemma is_object_line_allowed:
  "is_object_line raw \<Longrightarrow> line_tokens raw \<noteq> [] \<and> line_command raw \<in> set ALLOWED_COMMANDS"
  by (auto simp: is_object_line_def line_command_def ALLOWED_COMMANDS_def split: if_splits)

lemma parse_line_full:
  assumes "is_object_line raw" "MAX_OBJECTS \<le> c"
  shows "parse_line n raw (sp, c) = Inl (TooManyObjects n)"
proof -
  from is_object_line_allowed [OF assms(1)]
  have t: "line_tokens raw \<noteq> []" and a: "line_command raw \<in> set ALLOWED_COMMANDS" by simp_all
  from assms(1) consider "line_command raw = ''TEXT''" | "line_command raw = ''SHAPE''"
    by (auto simp: is_object_line_def)
  then show ?thesis
  proof cases
    case 1
    then show ?thesis using a assms(2)
      by (simp add: parse_line_command [OF t] run_command_TEXT)
  next
    case 2
    then show ?thesis using a assms(2)
      by (simp add: parse_line_command [OF t] run_command_SHAPE)
  qed
qed

lemma parse_line_too_many:
  assumes "parse_line n raw (sp, c) = Inl (TooManyObjects k)"
  shows "k = n \<and> is_object_line raw \<and> MAX_OBJECTS \<le> c"
proof (cases "line_tokens raw = []")
  case True
  with assms show ?thesis by (simp add: parse_line_skip)
next
  case False
  note pl = parse_line_command [OF False, of n "(sp, c)"]
  show ?thesis
  proof (cases "line_command raw \<in> set ALLOWED_COMMANDS")
    case False
    with assms pl show ?thesis by simp
  next
    case True
    from allowed_command_cases [OF True] show ?thesis
    proof (elim disjE)
      assume k: "line_command raw = ''BACKGROUND''"
      with assms pl True show ?thesis
        by (simp add: run_command_BACKGROUND Let_def split: if_splits)
    next
      assume k: "line_command raw = ''FPS''"
      with assms pl True show ?thesis
        by (simp add: run_command_FPS split: if_splits option.splits)
    next
      assume k: "line_command raw = ''DURATION''"
      with assms pl True show ?thesis
        by (simp add: run_command_DURATION split: if_splits option.splits)
    next
      assume k: "line_command raw = ''TEXT''"
      show ?thesis
      proof (cases "MAX_OBJECTS < c + 1")
        case True
        with assms pl k \<open>line_command raw \<in> set ALLOWED_COMMANDS\<close> show ?thesis
          by (simp add: run_command_TEXT is_object_line_def)
      next
        case False
        show ?thesis
        proof (cases "parse_text_command (tl (line_tokens raw)) n")
          case (Inl e)
          from parse_text_command_errors [OF Inl] assms pl k False
            \<open>line_command raw \<in> set ALLOWED_COMMANDS\<close> Inl
          show ?thesis by (auto simp: run_command_TEXT)
        next
          case (Inr cmd)
          with assms pl k False \<open>line_command raw \<in> set ALLOWED_COMMANDS\<close>
          show ?thesis by (simp add: run_command_TEXT)
        qed
      qed
    next
      assume k: "line_command raw = ''SHAPE''"
      show ?thesis
      proof (cases "MAX_OBJECTS < c + 1")
        case True
        with assms pl k \<open>line_command raw \<in> set ALLOWED_COMMANDS\<close> show ?thesis
          by (simp add: run_command_SHAPE is_object_line_def)
      next
        case False
        show ?thesis
        proof (cases "parse_shape_command (tl (line_tokens raw)) n")
          case (Inl e)
          from parse_shape_command_errors [OF Inl] assms pl k False
            \<open>line_command raw \<in> set ALLOWED_COMMANDS\<close> Inl
          show ?thesis by (auto simp: run_command_SHAPE)
        next
          case (Inr cmd)
          with assms pl k False \<open>line_command raw \<in> set ALLOWED_COMMANDS\<close>
          show ?thesis by (simp add: run_command_SHAPE)
        qed
      qed
    next
      assume k: "line_command raw = ''MOVE''"
      show ?thesis
      proof (cases "parse_move_command (tl (line_tokens raw)) n")
        case (Inl e)
        from parse_move_command_errors [OF Inl] assms pl k
          \<open>line_command raw \<in> set ALLOWED_COMMANDS\<close> Inl
        show ?thesis by (auto simp: run_command_MOVE)
      next
        case (Inr cmd)
        with assms pl k \<open>line_command raw \<in> set ALLOWED_COMMANDS\<close>
        show ?thesis by (simp add: run_command_MOVE)
      qed
    qed
  qed
qed

text \<open>What a line that is accepted does to the state of the loop.\<close>

lemma parse_line_Inr_cases [consumes 1, case_names skipped is_background is_fps is_duration is_text is_shape is_move]:
  assumes "parse_line n raw (sp, c) = Inr (sp', c')"
  obtains "line_tokens raw = []" "sp' = sp" "c' = c"
  | col where "line_command raw = ''BACKGROUND''"
      "col = (if 1 < length (line_tokens raw) then line_tokens raw ! 1 else ''#202020'')"
      "validate_color col" "sp' = sp\<lparr>background := col\<rparr>" "c' = c"
  | k where "line_command raw = ''FPS''"
      "(if 1 < length (line_tokens raw) then py_int (line_tokens raw ! 1) else Some 24) = Some k"
      "1 \<le> k" "k \<le> MAX_FPS" "sp' = sp\<lparr>fps := k\<rparr>" "c' = c"
  | d where "line_command raw = ''DURATION''"
      "(if 1 < length (line_tokens raw) then py_float (line_tokens raw ! 1) else Some (Finite 3)) = Some d"
      "\<not> flt_le d (Finite 0)" "\<not> flt_less MAX_DURATION d"
      "sp' = sp\<lparr>AnimationSpec.duration := d\<rparr>" "c' = c"
  | cmd where "line_command raw = ''TEXT''"
      "parse_text_command (tl (line_tokens raw)) n = Inr cmd"
      "sp' = sp\<lparr>objects := objects sp @ [Text cmd]\<rparr>" "c' = c + 1" "c + 1 \<le> MAX_OBJECTS"
  | cmd where "line_command raw = ''SHAPE''"
      "parse_shape_command (tl (line_tokens raw)) n = Inr cmd"
      "sp' = sp\<lparr>objects := objects sp @ [Shape cmd]\<rparr>" "c' = c + 1" "c + 1 \<le> MAX_OBJECTS"
  | mv where "line_command raw = ''MOVE''"
      "parse_move_command (tl (line_tokens raw)) n = Inr mv"
      "sp' = sp\<lparr>moves := moves sp @ [mv]\<rparr>" "c' = c"
proof (cases "line_tokens raw = []")
  case True
  with assms that(1) show ?thesis by (simp add: parse_line_skip)
next
  case False
  note pl = parse_line_command [OF False, of n "(sp, c)"]
  show ?thesis
  proof (cases "line_command raw \<in> set ALLOWED_COMMANDS")
    case False
    with assms pl show ?thesis by simp
  next
    case al: True
    from allowed_command_cases [OF al] show ?thesis
    proof (elim disjE)
      assume k: "line_command raw = ''BACKGROUND''"
      with assms pl al that(2) show ?thesis
        by (simp add: run_command_BACKGROUND Let_def split: if_splits)
    next
      assume k: "line_command raw = ''FPS''"
      with assms pl al that(3) show ?thesis
        by (auto simp: run_command_FPS split: if_splits option.splits error.splits)
    next
      assume k: "line_command raw = ''DURATION''"
      with assms pl al that(4) show ?thesis
        by (auto simp: run_command_DURATION split: if_splits option.splits error.splits)
    next
      assume k: "line_command raw = ''TEXT''"
      with assms pl al that(5) show ?thesis
        by (auto simp: run_command_TEXT split: if_splits sum.splits error.splits)
    next
      assume k: "line_command raw = ''SHAPE''"
      with assms pl al that(6) show ?thesis
        by (auto simp: run_command_SHAPE split: if_splits sum.splits error.splits)
    next
      assume k: "line_command raw = ''MOVE''"
      with assms pl al that(7) show ?thesis
        by (auto simp: run_command_MOVE split: if_splits sum.splits error.splits)
    qed
  qed
qed

text \<open>The loop over the lines: the object counter and the object limit.\<close>

lemma parse_lines_append:
  "parse_lines n (pre @ post) st =
     (case parse_lines n pre st of
        Inl e \<Rightarrow> Inl e
      | Inr st' \<Rightarrow> parse_lines (n + length pre) post st')"
  by (induction pre arbitrary: n st) (auto split: sum.splits)

lemma parse_line_count:
  assumes "parse_line n raw (sp, c) = Inr (sp', c')"
  shows "c' = (if is_object_line raw then c + 1 else c)"
  using assms
  by (cases rule: parse_line_Inr_cases)
     (simp_all add: is_object_line_def line_command_def)

lemma parse_lines_count:
  "parse_lines n ls (sp, c) = Inr (sp', c') \<Longrightarrow> c' = c + count_object_lines ls"
proof (induction ls arbitrary: n sp c)
  case Nil
  then show ?case by (simp add: count_object_lines_def)
next
  case (Cons raw ls)
  from Cons.prems obtain sp1 c1 where
    a: "parse_line n raw (sp, c) = Inr (sp1, c1)" and
    b: "parse_lines (Suc n) ls (sp1, c1) = Inr (sp', c')"
    by (auto split: sum.splits)
  from parse_line_count [OF a] Cons.IH [OF b] show ?case
    by (simp add: count_object_lines_def)
qed

lemma parse_lines_too_many:
  "parse_lines n ls (sp, c) = Inl (TooManyObjects k) \<Longrightarrow>
   \<exists>pre raw post st. ls = pre @ raw # post \<and> parse_lines n pre (sp, c) = Inr st
      \<and> k = n + length pre \<and> is_object_line raw \<and> MAX_OBJECTS \<le> snd st"
proof (induction ls arbitrary: n sp c)
  case Nil
  then show ?case by simp
next
  case (Cons raw ls)
  show ?case
  proof (cases "parse_line n raw (sp, c)")
    case (Inl e)
    with Cons.prems have "parse_line n raw (sp, c) = Inl (TooManyObjects k)" by simp
    from parse_line_too_many [OF this]
    have "raw # ls = [] @ raw # ls \<and> parse_lines n [] (sp, c) = Inr (sp, c)
      \<and> k = n + length ([] :: string list) \<and> is_object_line raw \<and> MAX_OBJECTS \<le> snd (sp, c)"
      by simp
    then show ?thesis by blast
  next
    case (Inr st1)
    obtain sp1 c1 where st1: "st1 = (sp1, c1)" by (cases st1)
    from Cons.prems Inr st1 have "parse_lines (Suc n) ls (sp1, c1) = Inl (TooManyObjects k)"
      by simp
    from Cons.IH [OF this] obtain pre raw' post st where
      h: "ls = pre @ raw' # post" "parse_lines (Suc n) pre (sp1, c1) = Inr st"
         "k = Suc n + length pre" "is_object_line raw'" "MAX_OBJECTS \<le> snd st"
      by blast
    have "raw # ls = (raw # pre) @ raw' # post \<and> parse_lines n (raw # pre) (sp, c) = Inr st
      \<and> k = n + length (raw # pre) \<and> is_object_line raw' \<and> MAX_OBJECTS \<le> snd st"
      using h Inr st1 by simp
    then show ?thesis by blast
  qed
qed

lemma check_frames_errors:
  "check_frames sp = Inl e \<Longrightarrow>
   e = ValueError \<or> e = OverflowError \<or> (\<exists>k. e = TooManyFrames k \<and> MAX_FRAMES < k)"
proof -
  have i: "int_of_float d = Inl e' \<Longrightarrow> e' = ValueError \<or> e' = OverflowError" for d e'
    by (cases d) auto
  assume "check_frames sp = Inl e"
  then show ?thesis
    using i
    by (fastforce simp: check_frames_def int_of_product_def split: sum.splits if_splits pyfloat.splits)
qed

lemma parse_lines_count_bound:
  "parse_lines n ls (sp, c) = Inr (sp', c') \<Longrightarrow> c \<le> MAX_OBJECTS \<Longrightarrow> c' \<le> MAX_OBJECTS"
proof (induction ls arbitrary: n sp c)
  case Nil
  then show ?case by simp
next
  case (Cons raw ls)
  from Cons.prems(1) obtain sp1 c1 where
    a: "parse_line n raw (sp, c) = Inr (sp1, c1)" and
    b: "parse_lines (Suc n) ls (sp1, c1) = Inr (sp', c')"
    by (auto split: sum.splits)
  from a Cons.prems(2) have "c1 \<le> MAX_OBJECTS"
    by (cases rule: parse_line_Inr_cases) simp_all
  with Cons.IH [OF b] show ?case .
qed

lemma parse_dsl_too_many:
  assumes "parse_dsl s = Inl (TooManyObjects k)"
  shows "\<exists>pre raw post. document_lines s = pre @ raw # post \<and> k = length pre + 1
           \<and> is_object_line raw \<and> count_object_lines pre = MAX_OBJECTS"
proof -
  have "parse_lines 1 (document_lines s) (default_spec, 0) = Inl (TooManyObjects k)"
  proof (cases "parse_lines 1 (document_lines s) (default_spec, 0)")
    case (Inl e)
    with assms show ?thesis by (simp add: parse_dsl_def document_lines_def)
  next
    case (Inr st)
    with assms have "check_frames (fst st) = Inl (TooManyObjects k)"
      by (simp add: parse_dsl_def document_lines_def)
    from check_frames_errors [OF this] show ?thesis by simp
  qed
  from parse_lines_too_many [OF this] obtain pre raw post st where
    h: "document_lines s = pre @ raw # post" "parse_lines 1 pre (default_spec, 0) = Inr st"
       "k = 1 + length pre" "is_object_line raw" "MAX_OBJECTS \<le> snd st"
    by blast
  obtain sp1 c1 where st: "st = (sp1, c1)" by (cases st)
  from h(2) st have c1: "c1 = count_object_lines pre" using parse_lines_count by fastforce
  from h(2) st have "c1 \<le> MAX_OBJECTS" using parse_lines_count_bound by fastforce
  with h(5) st c1 have "count_object_lines pre = MAX_OBJECTS" by simp
  with h show ?thesis by auto
qed

lemma parse_dsl_at_limit:
  assumes "document_lines s = pre @ raw # post" "is_object_line raw"
    "count_object_lines pre = MAX_OBJECTS" "parse_lines 1 pre (default_spec, 0) = Inr st"
  shows "parse_dsl s = Inl (TooManyObjects (length pre + 1))"
proof -
  obtain sp1 c1 where st: "st = (sp1, c1)" by (cases st)
  from assms(4) st have "c1 = count_object_lines pre" using parse_lines_count by fastforce
  with assms(3) have "MAX_OBJECTS \<le> c1" by simp
  from parse_line_full [OF assms(2) this]
  have "parse_line (1 + length pre) raw (sp1, c1) = Inl (TooManyObjects (1 + length pre))" .
  then have "parse_lines 1 (pre @ raw # post) (default_spec, 0) =
      Inl (TooManyObjects (1 + length pre))"
    using assms(4) st by (simp add: parse_lines_append)
  then show ?thesis using assms(1) by (simp add: parse_dsl_def document_lines_def)
qed

text \<open>
  Claim C6.  For every ASCII document: the object limit is 50; a run of the line loop
  that ends without error has added to the counter the number of \<open>TEXT\<close> and \<open>SHAPE\<close>
  lines it ran over, and nothing for any other line; a document with at most 50 such
  lines never raises \<open>TooManyObjects\<close>; when the lines before the 51st such line are
  accepted, parsing stops at that line with \<open>TooManyObjects\<close> carrying its number; and
  whenever \<open>TooManyObjects\<close> is raised, its line number is that of the 51st such line.
\<close>

theorem object_limit:
  assumes "is_ascii s" and "list_all is_ascii ls"
  shows "MAX_OBJECTS = 50
   \<and> (parse_lines n ls (sp, c) = Inr (sp', c') \<longrightarrow> c' = c + count_object_lines ls)
   \<and> (count_object_lines (document_lines s) \<le> MAX_OBJECTS \<longrightarrow>
        parse_dsl s \<noteq> Inl (TooManyObjects k))
   \<and> (document_lines s = pre @ raw # post \<and> is_object_line raw
        \<and> count_object_lines pre = MAX_OBJECTS \<and> parse_lines 1 pre (default_spec, 0) = Inr st \<longrightarrow>
        parse_dsl s = Inl (TooManyObjects (length pre + 1)))
   \<and> (parse_dsl s = Inl (TooManyObjects k) \<longrightarrow>
        (\<exists>pre raw post. document_lines s = pre @ raw # post \<and> k = length pre + 1
           \<and> is_object_line raw \<and> count_object_lines pre = MAX_OBJECTS))"
proof (intro conjI impI)
  show "MAX_OBJECTS = 50" by (simp add: MAX_OBJECTS_def)
next
  assume "parse_lines n ls (sp, c) = Inr (sp', c')"
  then show "c' = c + count_object_lines ls" by (rule parse_lines_count)
next
  assume le: "count_object_lines (document_lines s) \<le> MAX_OBJECTS"
  show "parse_dsl s \<noteq> Inl (TooManyObjects k)"
  proof
    assume "parse_dsl s = Inl (TooManyObjects k)"
    from parse_dsl_too_many [OF this] obtain pre raw post where
      "document_lines s = pre @ raw # post" "is_object_line raw"
      "count_object_lines pre = MAX_OBJECTS" by blast
    then have "count_object_lines (document_lines s) > MAX_OBJECTS"
      by (simp add: count_object_lines_def)
    with le show False by simp
  qed
next
  assume "document_lines s = pre @ raw # post \<and> is_object_line raw
        \<and> count_object_lines pre = MAX_OBJECTS \<and> parse_lines 1 pre (default_spec, 0) = Inr st"
  then show "parse_dsl s = Inl (TooManyObjects (length pre + 1))"
    using parse_dsl_at_limit by blast
next
  assume "parse_dsl s = Inl (TooManyObjects k)"
  then show "\<exists>pre raw post. document_lines s = pre @ raw # post \<and> k = length pre + 1
           \<and> is_object_line raw \<and> count_object_lines pre = MAX_OBJECTS"
    by (rule parse_dsl_too_many)
qed

lemma line_tokens_text_a: "line_tokens ''TEXT a'' = [''TEXT'', ''a'']"
  by code_simp

lemma parse_text_a: "parse_text_command [''a''] n = Inr
   \<lparr>text' = ''a'', x = 100, y = 100, size' = 32, color = ''#FFFFFF'', move_to = None,
           move_duration = Finite 0, obj_id = ''text_'' @ str_nat n\<rparr>"
  by (simp add: parse_text_command_def)

lemma parse_line_text_a:
  assumes "c + 1 \<le> MAX_OBJECTS"
  shows "parse_line n ''TEXT a'' (sp, c) = Inr (sp\<lparr>objects := objects sp @ [text_a n]\<rparr>, c + 1)"
proof -
  have t: "line_tokens ''TEXT a'' \<noteq> []" by (simp add: line_tokens_text_a)
  have k: "line_command ''TEXT a'' = ''TEXT''" by code_simp
  have a: "''TEXT'' \<in> set ALLOWED_COMMANDS" by (simp add: ALLOWED_COMMANDS_def)
  show ?thesis
    using assms
    by (simp add: parse_line_command [OF t] k a run_command_TEXT line_tokens_text_a
        parse_text_a text_a_def)
qed

lemma parse_lines_text_a:
  "c + k \<le> MAX_OBJECTS \<Longrightarrow>
   parse_lines n (replicate k ''TEXT a'') (sp, c) =
     Inr (sp\<lparr>objects := objects sp @ map text_a [n ..< n + k]\<rparr>, c + k)"
proof (induction k arbitrary: n sp c)
  case 0
  then show ?case by simp
next
  case (Suc k)
  have "c + 1 \<le> MAX_OBJECTS" using Suc.prems by simp
  note a = parse_line_text_a [OF this, of n sp]
  have "Suc c + k \<le> MAX_OBJECTS" using Suc.prems by simp
  note ih = Suc.IH [OF this, of "Suc n" "sp\<lparr>objects := objects sp @ [text_a n]\<rparr>"]
  have u: "[n ..< Suc (n + k)] = n # [Suc n ..< Suc (n + k)]" by (simp add: upt_conv_Cons)
  show ?case using a ih by (simp add: u del: upt_Suc)
qed

lemma document_lines_texts:
  "document_lines (texts_then_circle 50) = replicate 50 ''TEXT a'' @ ''SHAPE CIRCLE'' # []"
  by code_simp

lemma is_object_line_circle: "is_object_line ''SHAPE CIRCLE''"
  by code_simp

lemma count_texts: "count_object_lines (replicate 50 ''TEXT a'') = MAX_OBJECTS"
  by code_simp

lemma count_texts_49: "count_object_lines (document_lines (texts_then_circle 49)) \<le> MAX_OBJECTS"
  by code_simp

theorem object_limit_witness:
  "is_ascii (texts_then_circle 50) \<and> is_ascii (texts_then_circle 49)
   \<and> list_all is_ascii (replicate 50 ''TEXT a'')
   \<and> parse_lines 1 (replicate 50 ''TEXT a'') (default_spec, 0) =
     Inr (default_spec\<lparr>objects := objects default_spec @ map text_a [1 ..< 1 + 50]\<rparr>, 0 + 50)
   \<and> snd (default_spec\<lparr>objects := objects default_spec @ map text_a [1 ..< 1 + 50]\<rparr>, 0 + 50 :: nat)
       = 0 + count_object_lines (replicate 50 ''TEXT a'')
   \<and> parse_dsl (texts_then_circle 50) = Inl (TooManyObjects 51)
   \<and> parse_dsl (texts_then_circle 49) \<noteq> Inl (TooManyObjects 50)"
proof -
  let ?st = "(default_spec\<lparr>objects := objects default_spec @ map text_a [1 ..< 1 + 50]\<rparr>,
              0 + 50 :: nat)"
  have a50: "is_ascii (texts_then_circle 50)" by code_simp
  have a49: "is_ascii (texts_then_circle 49)" by code_simp
  have al: "list_all is_ascii (replicate 50 ''TEXT a'')" by code_simp
  have p: "parse_lines 1 (replicate 50 ''TEXT a'') (default_spec, 0) = Inr ?st"
    by (rule parse_lines_text_a) (simp add: MAX_OBJECTS_def)
  note ol = object_limit [OF a50 al, where n = 1 and sp = default_spec and c = 0
      and sp' = "fst ?st" and c' = "snd ?st" and k = 51 and pre = "replicate 50 ''TEXT a''"
      and raw = "''SHAPE CIRCLE''" and post = "[]" and st = ?st]
  from ol have "document_lines (texts_then_circle 50) = replicate 50 ''TEXT a'' @ ''SHAPE CIRCLE'' # []
      \<and> is_object_line ''SHAPE CIRCLE''
      \<and> count_object_lines (replicate 50 ''TEXT a'') = MAX_OBJECTS
      \<and> parse_lines 1 (replicate 50 ''TEXT a'') (default_spec, 0) = Inr ?st \<longrightarrow>
      parse_dsl (texts_then_circle 50) = Inl (TooManyObjects (length (replicate 50 ''TEXT a'') + 1))"
    by blast
  with p document_lines_texts is_object_line_circle count_texts
  have a: "parse_dsl (texts_then_circle 50) = Inl (TooManyObjects 51)"
    by simp
  from ol have "parse_lines 1 (replicate 50 ''TEXT a'') (default_spec, 0) = Inr (fst ?st, snd ?st) \<longrightarrow>
      snd ?st = 0 + count_object_lines (replicate 50 ''TEXT a'')"
    by blast
  with p have cnt: "snd ?st = 0 + count_object_lines (replicate 50 ''TEXT a'')" by simp
  note ol2 = object_limit [OF a49 al, where k = 50]
  from ol2 have "count_object_lines (document_lines (texts_then_circle 49)) \<le> MAX_OBJECTS \<longrightarrow>
        parse_dsl (texts_then_circle 49) \<noteq> Inl (TooManyObjects 50)"
    by blast
  with count_texts_49 have b: "parse_dsl (texts_then_circle 49) \<noteq> Inl (TooManyObjects 50)"
    by blast
  from a50 a49 al p cnt a b show ?thesis by blast
qed









section \<open>The frame limit\<close>









section \<open>Colour validation\<close>

text \<open>
  The strings that \<open>validate_color\<close> accepts: \<open>#\<close>, six hexadecimal digits and, since
  \<open>$\<close> also matches before a final line feed, possibly one line feed.  On a string
  without line feed, as every token of a document is, it accepts exactly the colours; and
  a token that it refuses after \<open>BACKGROUND\<close> or after the keyword \<open>COLOR\<close> of a text or
  shape command raises \<open>InvalidColor\<close> with the line number and the token.
\<close>

lemma validate_color_chars:
  "validate_color s \<longleftrightarrow>
     (\<exists>h. length h = 6 \<and> list_all is_hex_digit h
          \<and> (s = CHR ''#'' # h \<or> s = CHR ''#'' # h @ [CHR 0x0A]))"
proof
  assume v: "validate_color s"
  then have a: "take 1 s = ''#''" and b: "length (take 6 (drop 1 s)) = 6"
    and c: "list_all is_hex_digit (take 6 (drop 1 s))"
    and d: "drop 7 s = [] \<or> drop 7 s = [CHR 0x0A]"
    by (auto simp: validate_color_def match_VALID_COLORS_PATTERN_def split: if_splits)
  have "s = take 1 s @ take 6 (drop 1 s) @ drop 7 s"
    by (metis add.commute append_take_drop_id drop_drop numeral_plus_one semiring_norm(5) semiring_norm(2))
  with a d have "s = CHR ''#'' # take 6 (drop 1 s) \<or> s = CHR ''#'' # take 6 (drop 1 s) @ [CHR 0x0A]"
    by auto
  with b c show "\<exists>h. length h = 6 \<and> list_all is_hex_digit h
          \<and> (s = CHR ''#'' # h \<or> s = CHR ''#'' # h @ [CHR 0x0A])"
    by blast
next
  assume "\<exists>h. length h = 6 \<and> list_all is_hex_digit h
          \<and> (s = CHR ''#'' # h \<or> s = CHR ''#'' # h @ [CHR 0x0A])"
  then show "validate_color s"
    by (auto simp: validate_color_def match_VALID_COLORS_PATTERN_def)
qed

lemma is_hex_color_chars:
  "is_hex_color s \<longleftrightarrow> (\<exists>h. length h = 6 \<and> list_all is_hex_digit h \<and> s = CHR ''#'' # h)"
proof
  assume "is_hex_color s"
  then have "length s = 7" "take 1 s = ''#''" "list_all is_hex_digit (drop 1 s)"
    by (simp_all add: is_hex_color_def)
  then have "length (drop 1 s) = 6 \<and> list_all is_hex_digit (drop 1 s) \<and> s = CHR ''#'' # drop 1 s"
    by (cases s) auto
  then show "\<exists>h. length h = 6 \<and> list_all is_hex_digit h \<and> s = CHR ''#'' # h" by blast
next
  assume "\<exists>h. length h = 6 \<and> list_all is_hex_digit h \<and> s = CHR ''#'' # h"
  then show "is_hex_color s" by (auto simp: is_hex_color_def)
qed

lemma validate_color_exact:
  assumes "CHR 0x0A \<notin> set s"
  shows "validate_color s = is_hex_color s"
  using assms unfolding validate_color_chars is_hex_color_chars by auto

lemma hex_digit_not_newline: "is_hex_digit c \<Longrightarrow> c \<noteq> CHR 0x0A"
  by (auto simp: is_hex_digit_def)

lemma is_hex_color_validate: "is_hex_color s \<Longrightarrow> validate_color s"
  unfolding validate_color_chars is_hex_color_chars by auto

lemma text_loop_invalid_color:
  "upper tok = ''COLOR'' \<Longrightarrow> \<not> validate_color c \<Longrightarrow>
   text_loop n cmd (tok # c # rest) = Inl (InvalidColor n c)"
  by (simp add: Let_def)

lemma shape_loop_invalid_color:
  "upper tok = ''COLOR'' \<Longrightarrow> \<not> validate_color c \<Longrightarrow>
   shape_loop n cmd (tok # c # rest) = Inl (InvalidColor n c)"
  by (simp add: Let_def)

lemma background_invalid_color:
  "\<not> validate_color c \<Longrightarrow>
   run_command n ''BACKGROUND'' (tok # c # rest) st = Inl (InvalidColor n c)"
  by (simp add: run_command_def Let_def)


section \<open>The descriptors that the renderer prepares\<close>

lemma prepare_objects_result:
  "prepare_objects objs r = Inr r' \<Longrightarrow>
   spec r' = spec r
   \<and> AnimationRenderer.width r' = AnimationRenderer.width r
   \<and> AnimationRenderer.height r' = AnimationRenderer.height r
   \<and> bg_color r' = bg_color r \<and> frames r' = frames r \<and> total_frames r' = total_frames r
   \<and> (\<forall>oid. object_positions r' oid =
          (case declared_position objs oid of Some p \<Rightarrow> Some p | None \<Rightarrow> object_positions r oid))
   \<and> (\<forall>oid. object_moves r' oid =
          (case last_inline objs oid of
             Some obj \<Rightarrow> inline_descriptor (fps (spec r)) obj
           | None \<Rightarrow> object_moves r oid))"
proof (induction objs arbitrary: r)
  case Nil
  then show ?case by simp
next
  case (Cons obj objs)
  define r1 where "r1 = r\<lparr>object_positions := (object_positions r)(object_id obj \<mapsto> object_xy obj)\<rparr>"
  show ?case
  proof (cases "is_command obj")
    case False
    with Cons.prems have "prepare_objects objs r = Inr r'" by simp
    from Cons.IH [OF this] False show ?thesis
      by (auto simp: has_inline_move_def split: option.splits)
  next
    case cmd: True
    show ?thesis
    proof (cases "object_move_to obj")
      case None
      with cmd Cons.prems have "prepare_objects objs r1 = Inr r'"
        by (simp add: r1_def Let_def)
      from Cons.IH [OF this] cmd None show ?thesis
        by (auto simp: r1_def has_inline_move_def split: option.splits)
    next
      case (Some target)
      show ?thesis
      proof (cases "flt_less (Finite 0) (object_move_duration obj)")
        case False
        with cmd Some Cons.prems have "prepare_objects objs r1 = Inr r'"
          by (simp add: r1_def Let_def)
        from Cons.IH [OF this] cmd Some False show ?thesis
          by (auto simp: r1_def has_inline_move_def split: option.splits)
      next
        case True
        show ?thesis
        proof (cases "int_of_product (object_move_duration obj) (fps (spec r1))")
          case (Inl e)
          with cmd Some True Cons.prems show ?thesis
            by (simp add: r1_def Let_def)
        next
          case (Inr ef)
          define r2 where "r2 = r1\<lparr>object_moves := (object_moves r1)(object_id obj \<mapsto>
                            \<lparr>from_xy = object_xy obj, to_xy = target, start_frame = 0,
                             end_frame = ef, ease_name = object_ease obj\<rparr>)\<rparr>"
          from cmd Some True Inr Cons.prems have "prepare_objects objs r2 = Inr r'"
            by (simp add: r1_def r2_def Let_def)
          from Cons.IH [OF this] cmd Some True Inr show ?thesis
            by (auto simp: r1_def r2_def has_inline_move_def inline_descriptor_def
                split: option.splits)
        qed
      qed
    qed
  qed
qed

lemma prepare_moves_result:
  "prepare_moves ms r = Inr r' \<Longrightarrow>
   spec r' = spec r
   \<and> AnimationRenderer.width r' = AnimationRenderer.width r
   \<and> AnimationRenderer.height r' = AnimationRenderer.height r
   \<and> bg_color r' = bg_color r \<and> frames r' = frames r \<and> total_frames r' = total_frames r
   \<and> object_positions r' = object_positions r
   \<and> (\<forall>oid. object_moves r' oid =
          (case (object_positions r oid, last_standalone ms oid) of
             (Some p, Some mv) \<Rightarrow> standalone_descriptor (fps (spec r)) p mv
           | _ \<Rightarrow> object_moves r oid))"
proof (induction ms arbitrary: r)
  case Nil
  then show ?case by (simp split: option.splits)
next
  case (Cons mv ms)
  show ?case
  proof (cases "object_positions r (MoveCommand.obj_id mv)")
    case None
    with Cons.prems have "prepare_moves ms r = Inr r'" by simp
    from Cons.IH [OF this] None show ?thesis
      by (auto split: option.splits)
  next
    case (Some current_pos)
    show ?thesis
    proof (cases "int_of_product (MoveCommand.duration mv) (fps (spec r))")
      case (Inl e)
      with Some Cons.prems show ?thesis by simp
    next
      case (Inr ef)
      define r2 where "r2 = r\<lparr>object_moves := (object_moves r)(MoveCommand.obj_id mv \<mapsto>
                    \<lparr>from_xy = current_pos, to_xy = (to_x mv, to_y mv), start_frame = 0,
                     end_frame = ef, ease_name = MoveCommand.ease mv\<rparr>)\<rparr>"
      from Some Inr Cons.prems have "prepare_moves ms r2 = Inr r'"
        by (simp add: r2_def)
      from Cons.IH [OF this] Some Inr show ?thesis
        by (auto simp: r2_def standalone_descriptor_def split: option.splits)
    qed
  qed
qed

lemma prepare_moves_frames_exist:
  "prepare_moves ms r = Inr r' \<Longrightarrow> mv \<in> set ms \<Longrightarrow>
   object_positions r (MoveCommand.obj_id mv) \<noteq> None \<Longrightarrow>
   \<exists>ef. int_of_product (MoveCommand.duration mv) (fps (spec r)) = Inr ef"
proof (induction ms arbitrary: r)
  case Nil
  then show ?case by simp
next
  case (Cons m ms)
  show ?case
  proof (cases "object_positions r (MoveCommand.obj_id m)")
    case None
    with Cons.prems(1) have p: "prepare_moves ms r = Inr r'" by simp
    from Cons.prems(2,3) None have "mv \<in> set ms" by auto
    from Cons.IH [OF p this Cons.prems(3)] show ?thesis .
  next
    case (Some current_pos)
    show ?thesis
    proof (cases "int_of_product (MoveCommand.duration m) (fps (spec r))")
      case (Inl e)
      with Some Cons.prems(1) show ?thesis by simp
    next
      case (Inr ef)
      define r2 where "r2 = r\<lparr>object_moves := (object_moves r)(MoveCommand.obj_id m \<mapsto>
                    \<lparr>from_xy = current_pos, to_xy = (to_x m, to_y m), start_frame = 0,
                     end_frame = ef, ease_name = MoveCommand.ease m\<rparr>)\<rparr>"
      from Some Inr Cons.prems(1) have p: "prepare_moves ms r2 = Inr r'"
        by (simp add: r2_def)
      show ?thesis
      proof (cases "mv = m")
        case True
        with Inr show ?thesis by blast
      next
        case False
        with Cons.prems(2) have "mv \<in> set ms" by simp
        from Cons.IH [OF p this] Cons.prems(3) show ?thesis by (simp add: r2_def)
      qed
    qed
  qed
qed

lemma init_parts:
  assumes "AnimationRenderer_init sp w h = Inr r"
  obtains tf bg r0 r1 where
    "int_of_product (AnimationSpec.duration sp) (fps sp) = Inr tf"
    "hex_to_rgb (background sp) = Inr bg"
    "r0 = \<lparr>spec = sp, width = min w MAX_WIDTH, height = min h MAX_HEIGHT, frames = [],
           total_frames = tf, bg_color = bg, object_positions = Map.empty,
           object_moves = Map.empty\<rparr>"
    "prepare_objects (objects sp) r0 = Inr r1"
    "prepare_moves (moves sp) r1 = Inr r"
proof -
  from assms obtain tf where tf: "int_of_product (AnimationSpec.duration sp) (fps sp) = Inr tf"
    by (auto simp: AnimationRenderer_init_def split: sum.splits)
  from assms tf obtain bg where bg: "hex_to_rgb (background sp) = Inr bg"
    by (auto simp: AnimationRenderer_init_def split: sum.splits)
  define r0 where "r0 = \<lparr>spec = sp, width = min w MAX_WIDTH, height = min h MAX_HEIGHT, frames = [],
           total_frames = tf, bg_color = bg, object_positions = Map.empty,
           object_moves = (Map.empty :: string \<rightharpoonup> motion)\<rparr>"
  from assms tf bg have pm: "prepare_movements r0 = Inr r"
    by (simp add: AnimationRenderer_init_def r0_def)
  then obtain r1 where a: "prepare_objects (objects sp) r0 = Inr r1"
    by (auto simp: prepare_movements_def r0_def split: sum.splits)
  from prepare_objects_result [OF a] have "spec r1 = sp" by (simp add: r0_def)
  with pm a have b: "prepare_moves (moves sp) r1 = Inr r"
    by (simp add: prepare_movements_def r0_def)
  from that [OF tf bg r0_def a b] show ?thesis .
qed

lemma init_result:
  assumes "AnimationRenderer_init sp w h = Inr r"
  shows "spec r = sp \<and> object_positions r oid = declared_position (objects sp) oid
         \<and> object_moves r oid = final_descriptor sp oid"
proof -
  from assms obtain tf bg r0 r1 where
    r0: "r0 = \<lparr>spec = sp, width = min w MAX_WIDTH, height = min h MAX_HEIGHT, frames = [],
           total_frames = tf, bg_color = bg, object_positions = Map.empty,
           object_moves = Map.empty\<rparr>"
    and a: "prepare_objects (objects sp) r0 = Inr r1"
    and b: "prepare_moves (moves sp) r1 = Inr r"
    by (rule init_parts)
  note A = prepare_objects_result [OF a]
  note B = prepare_moves_result [OF b]
  have z: "spec r0 = sp" "object_positions r0 oid = None" "object_moves r0 oid = None"
    by (simp_all add: r0)
  from A z have s1: "spec r1 = sp" by simp
  from A have "object_positions r1 oid =
      (case declared_position (objects sp) oid of Some p \<Rightarrow> Some p
       | None \<Rightarrow> object_positions r0 oid)" by blast
  with z have p1: "object_positions r1 oid = declared_position (objects sp) oid"
    by (simp split: option.splits)
  from A have "object_moves r1 oid =
      (case last_inline (objects sp) oid of
         Some obj \<Rightarrow> inline_descriptor (fps (spec r0)) obj | None \<Rightarrow> object_moves r0 oid)"
    by blast
  with z have m1: "object_moves r1 oid =
      (case last_inline (objects sp) oid of
         Some obj \<Rightarrow> inline_descriptor (fps sp) obj | None \<Rightarrow> None)"
    by (simp split: option.splits)
  from B s1 have s: "spec r = sp" by simp
  from B p1 have p: "object_positions r oid = declared_position (objects sp) oid" by simp
  from B have "object_moves r oid =
          (case (object_positions r1 oid, last_standalone (moves sp) oid) of
             (Some p, Some mv) \<Rightarrow> standalone_descriptor (fps (spec r1)) p mv
           | _ \<Rightarrow> object_moves r1 oid)" by blast
  with p1 m1 s1 have m: "object_moves r oid = final_descriptor sp oid"
    by (auto simp: final_descriptor_def split: option.splits)
  from s p m show ?thesis by blast
qed

lemma last_standalone_none:
  "list_all (\<lambda>m. MoveCommand.obj_id m \<noteq> oid) ms \<Longrightarrow> last_standalone ms oid = None"
  by (induction ms) auto

lemma last_standalone_last:
  "MoveCommand.obj_id mv = oid \<Longrightarrow> list_all (\<lambda>m. MoveCommand.obj_id m \<noteq> oid) ms2 \<Longrightarrow>
   last_standalone (ms1 @ mv # ms2) oid = Some mv"
  by (induction ms1) (auto simp: last_standalone_none)

lemma declared_position_none:
  "list_all (\<lambda>b. \<not> (is_command b \<and> object_id b = oid)) os \<Longrightarrow> declared_position os oid = None"
  by (induction os) auto

lemma declared_position_last:
  "is_command ob \<Longrightarrow> object_id ob = oid \<Longrightarrow>
   list_all (\<lambda>b. \<not> (is_command b \<and> object_id b = oid)) os2 \<Longrightarrow>
   declared_position (os1 @ ob # os2) oid = Some (object_xy ob)"
  by (induction os1) (auto simp: declared_position_none)

lemma last_inline_none:
  "list_all (\<lambda>b. \<not> (has_inline_move b \<and> object_id b = oid)) os \<Longrightarrow> last_inline os oid = None"
  by (induction os) auto

lemma last_inline_last:
  "has_inline_move ob \<Longrightarrow> object_id ob = oid \<Longrightarrow>
   list_all (\<lambda>b. \<not> (has_inline_move b \<and> object_id b = oid)) os2 \<Longrightarrow>
   last_inline (os1 @ ob # os2) oid = Some ob"
  by (induction os1) (auto simp: last_inline_none)

lemma prepare_objects_frames_exist:
  "prepare_objects objs r = Inr r' \<Longrightarrow> ob \<in> set objs \<Longrightarrow> has_inline_move ob \<Longrightarrow>
   \<exists>ef. int_of_product (object_move_duration ob) (fps (spec r)) = Inr ef"
proof (induction objs arbitrary: r)
  case Nil
  then show ?case by simp
next
  case (Cons obj objs)
  define r1 where "r1 = r\<lparr>object_positions := (object_positions r)(object_id obj \<mapsto> object_xy obj)\<rparr>"
  have f1: "fps (spec r1) = fps (spec r)" by (simp add: r1_def)
  show ?case
  proof (cases "ob = obj")
    case True
    with Cons.prems(3) obtain target where
      c: "is_command obj" and t: "object_move_to obj = Some target"
      and d: "flt_less (Finite 0) (object_move_duration obj)"
      by (auto simp: has_inline_move_def)
    show ?thesis
    proof (cases "int_of_product (object_move_duration obj) (fps (spec r1))")
      case (Inl e)
      with c t d Cons.prems(1) show ?thesis by (simp add: r1_def Let_def)
    next
      case (Inr ef)
      with True f1 show ?thesis by auto
    qed
  next
    case False
    with Cons.prems(2) have mem: "ob \<in> set objs" by simp
    from Cons.prems(1) obtain r2 where p: "prepare_objects objs r2 = Inr r'"
      and f2: "fps (spec r2) = fps (spec r)"
      by (auto simp: Let_def split: if_splits option.splits sum.splits)
    from Cons.IH [OF p mem Cons.prems(3)] f2 show ?thesis by simp
  qed
qed

text \<open>
  Claim C3.  For every renderer that the constructor returns and every identifier: the
  recorded position is the declared position, the \<open>AT\<close> coordinates of the last object
  that carries the identifier; there is one descriptor at most (the descriptors are a
  map), and it is the one the last declaration processed gives, whole: when a standalone
  move names a declared identifier, the descriptor is built from the last such move, and
  its \<open>from\<close> is the declared position, whatever inline or standalone moves came before;
  when no standalone move names the identifier, it is built from the last object that
  carries it with an inline move; an identifier that no object carries has no descriptor.
\<close>

theorem one_descriptor_per_object:
  assumes "AnimationRenderer_init sp w h = Inr r"
  shows "object_positions r oid = declared_position (objects sp) oid
    \<and> object_moves r oid = final_descriptor sp oid
    \<and> (moves sp = before @ mv # after \<and> MoveCommand.obj_id mv = oid
        \<and> list_all (\<lambda>m. MoveCommand.obj_id m \<noteq> oid) after
        \<and> objects sp = earlier @ ob # later \<and> is_command ob \<and> object_id ob = oid
        \<and> list_all (\<lambda>b. \<not> (is_command b \<and> object_id b = oid)) later \<longrightarrow>
          (\<exists>ef. int_of_product (MoveCommand.duration mv) (fps sp) = Inr ef
             \<and> object_moves r oid =
                 Some \<lparr>from_xy = object_xy ob, to_xy = (to_x mv, to_y mv), start_frame = 0,
                       end_frame = ef, ease_name = MoveCommand.ease mv\<rparr>))
    \<and> (list_all (\<lambda>m. MoveCommand.obj_id m \<noteq> oid) (moves sp)
        \<and> objects sp = earlier @ ob # later \<and> has_inline_move ob \<and> object_id ob = oid
        \<and> list_all (\<lambda>b. \<not> (has_inline_move b \<and> object_id b = oid)) later \<longrightarrow>
          (\<exists>ef target. object_move_to ob = Some target
             \<and> int_of_product (object_move_duration ob) (fps sp) = Inr ef
             \<and> object_moves r oid =
                 Some \<lparr>from_xy = object_xy ob, to_xy = target, start_frame = 0,
                       end_frame = ef, ease_name = object_ease ob\<rparr>))
    \<and> (declared_position (objects sp) oid = None \<longrightarrow> object_moves r oid = None)"
proof -
  note ir = init_result [OF assms, of oid]
  from assms obtain tf bg r0 r1 where
    r0: "r0 = \<lparr>spec = sp, width = min w MAX_WIDTH, height = min h MAX_HEIGHT, frames = [],
           total_frames = tf, bg_color = bg, object_positions = Map.empty,
           object_moves = Map.empty\<rparr>"
    and a: "prepare_objects (objects sp) r0 = Inr r1"
    and b: "prepare_moves (moves sp) r1 = Inr r"
    by (rule init_parts)
  have s0: "spec r0 = sp" by (simp add: r0)
  from prepare_objects_result [OF a] s0 have s1: "spec r1 = sp" by simp
  have p1: "object_positions r1 k = declared_position (objects sp) k" for k
  proof -
    from prepare_objects_result [OF a] have "object_positions r1 k =
      (case declared_position (objects sp) k of Some p \<Rightarrow> Some p
       | None \<Rightarrow> object_positions r0 k)" by blast
    then show ?thesis by (simp add: r0 split: option.splits)
  qed
  have c3: "\<exists>ef. int_of_product (MoveCommand.duration mv) (fps sp) = Inr ef
             \<and> object_moves r oid =
                 Some \<lparr>from_xy = object_xy ob, to_xy = (to_x mv, to_y mv), start_frame = 0,
                       end_frame = ef, ease_name = MoveCommand.ease mv\<rparr>"
    if h: "moves sp = before @ mv # after \<and> MoveCommand.obj_id mv = oid
        \<and> list_all (\<lambda>m. MoveCommand.obj_id m \<noteq> oid) after
        \<and> objects sp = earlier @ ob # later \<and> is_command ob \<and> object_id ob = oid
        \<and> list_all (\<lambda>b. \<not> (is_command b \<and> object_id b = oid)) later"
  proof -
    from h have ls: "last_standalone (moves sp) oid = Some mv"
      by (simp add: last_standalone_last)
    from h have dp: "declared_position (objects sp) oid = Some (object_xy ob)"
      by (simp add: declared_position_last)
    from h have mem: "mv \<in> set (moves sp)" by simp
    from h dp p1 [of oid] have "object_positions r1 (MoveCommand.obj_id mv) \<noteq> None" by simp
    from prepare_moves_frames_exist [OF b mem this] s1
    obtain ef where ef: "int_of_product (MoveCommand.duration mv) (fps sp) = Inr ef" by auto
    from ir ls dp ef have "object_moves r oid =
        Some \<lparr>from_xy = object_xy ob, to_xy = (to_x mv, to_y mv), start_frame = 0,
              end_frame = ef, ease_name = MoveCommand.ease mv\<rparr>"
      by (simp add: final_descriptor_def standalone_descriptor_def)
    with ef show ?thesis by blast
  qed
  have c4: "\<exists>ef target. object_move_to ob = Some target
             \<and> int_of_product (object_move_duration ob) (fps sp) = Inr ef
             \<and> object_moves r oid =
                 Some \<lparr>from_xy = object_xy ob, to_xy = target, start_frame = 0,
                       end_frame = ef, ease_name = object_ease ob\<rparr>"
    if h: "list_all (\<lambda>m. MoveCommand.obj_id m \<noteq> oid) (moves sp)
        \<and> objects sp = earlier @ ob # later \<and> has_inline_move ob \<and> object_id ob = oid
        \<and> list_all (\<lambda>b. \<not> (has_inline_move b \<and> object_id b = oid)) later"
  proof -
    from h have ls: "last_standalone (moves sp) oid = None" by (simp add: last_standalone_none)
    from h have li: "last_inline (objects sp) oid = Some ob" by (simp add: last_inline_last)
    from h obtain target where t: "object_move_to ob = Some target"
      by (auto simp: has_inline_move_def)
    from h have mem: "ob \<in> set (objects sp)" by simp
    from h have "has_inline_move ob" by simp
    from prepare_objects_frames_exist [OF a mem this] s0
    obtain ef where ef: "int_of_product (object_move_duration ob) (fps sp) = Inr ef" by auto
    from ir ls li t ef have "object_moves r oid =
        Some \<lparr>from_xy = object_xy ob, to_xy = target, start_frame = 0,
              end_frame = ef, ease_name = object_ease ob\<rparr>"
      by (simp add: final_descriptor_def inline_descriptor_def split: option.splits)
    with t ef show ?thesis by blast
  qed
  have li_dp: "last_inline os k = Some b \<Longrightarrow> declared_position os k \<noteq> None" for os k b
    by (induction os) (auto simp: has_inline_move_def split: option.splits if_splits)
  have c5: "object_moves r oid = None" if "declared_position (objects sp) oid = None"
  proof -
    from that li_dp [of "objects sp" oid] have "last_inline (objects sp) oid = None"
      by (cases "last_inline (objects sp) oid") auto
    with that ir show ?thesis by (simp add: final_descriptor_def)
  qed
  from ir c3 c4 c5 show ?thesis by blast
qed

lemma chained_scene_init:
  "case AnimationRenderer_init chained_scene 640 360 of Inl e \<Rightarrow> False | Inr r \<Rightarrow> True"
  by code_simp

lemma int_of_product_2_24: "int_of_product (Finite 2) 24 = Inr 48" by code_simp

theorem one_descriptor_per_object_witness:
  "map_sum id (\<lambda>r. (object_positions r ''ball'', object_moves r ''ball'', object_moves r ''ghost''))
     (AnimationRenderer_init chained_scene 640 360) =
   Inr (Some (0, 0),
        Some \<lparr>from_xy = (0, 0), to_xy = (200, 50), start_frame = 0, end_frame = 48,
              ease_name = ''ease-in''\<rparr>,
        None)"
proof -
  from chained_scene_init obtain r where r: "AnimationRenderer_init chained_scene 640 360 = Inr r"
    by (cases "AnimationRenderer_init chained_scene 640 360") auto
  let ?ob = "Shape \<lparr>shape_type = ''CIRCLE'', obj_id = ''ball'', x = 0, y = 0,
                        color = ''#FFFFFF'', radius = 20, width = 50, height = 50,
                        move_to = Some (50, 60), move_duration = Finite 1, ease = ''ease-out''\<rparr>"
  let ?m1 = "\<lparr>obj_id = ''ball'', to_x = 100, to_y = 100, duration = Finite 1, ease = ''linear''\<rparr>"
  let ?m2 = "\<lparr>obj_id = ''ball'', to_x = 200, to_y = 50, duration = Finite 2, ease = ''ease-in''\<rparr>"
  let ?m3 = "\<lparr>obj_id = ''ghost'', to_x = 7, to_y = 7, duration = Finite 1, ease = ''linear''\<rparr>"
  have mv: "moves chained_scene = [?m1] @ ?m2 # [?m3]"
    by (simp add: chained_scene_def chained_moves_def)
  have ob: "objects chained_scene = [] @ ?ob # []"
    by (simp add: chained_scene_def ball_scene_def)
  have f: "fps chained_scene = 24" by (simp add: chained_scene_def ball_scene_def)
  note t = one_descriptor_per_object [OF r, where oid = "''ball''" and before = "[?m1]"
      and mv = ?m2 and after = "[?m3]" and earlier = "[]" and ob = ?ob and later = "[]"]
  have hyp: "moves chained_scene = [?m1] @ ?m2 # [?m3] \<and> MoveCommand.obj_id ?m2 = ''ball''
        \<and> list_all (\<lambda>m. MoveCommand.obj_id m \<noteq> ''ball'') [?m3]
        \<and> objects chained_scene = [] @ ?ob # [] \<and> is_command ?ob \<and> object_id ?ob = ''ball''
        \<and> list_all (\<lambda>b. \<not> (is_command b \<and> object_id b = ''ball'')) []"
    using mv ob by simp
  from t hyp have "\<exists>ef. int_of_product (MoveCommand.duration ?m2) (fps chained_scene) = Inr ef
             \<and> object_moves r ''ball'' =
                 Some \<lparr>from_xy = object_xy ?ob, to_xy = (to_x ?m2, to_y ?m2), start_frame = 0,
                       end_frame = ef, ease_name = MoveCommand.ease ?m2\<rparr>"
    by blast
  with f int_of_product_2_24 have m: "object_moves r ''ball'' =
      Some \<lparr>from_xy = (0, 0), to_xy = (200, 50), start_frame = 0, end_frame = 48,
              ease_name = ''ease-in''\<rparr>"
    by auto
  from t have "object_positions r ''ball'' = declared_position (objects chained_scene) ''ball''"
    by blast
  then have p: "object_positions r ''ball'' = Some (0, 0)"
    by (simp add: ob)
  note g = one_descriptor_per_object [OF r, where oid = "''ghost''"]
  have "declared_position (objects chained_scene) ''ghost'' = None"
    by (simp add: ob)
  with g have gh: "object_moves r ''ghost'' = None" by blast
  from r m p gh show ?thesis by simp
qed

end
